theory Spec2Isabelle
  imports Main
begin

section \<open>Python strings\<close>

text \<open>
  A Python \<open>str\<close> is a sequence of Unicode code points; a code point is a natural
  number here. \<open>u\<close> turns an ASCII literal into such a string.
\<close>

type_synonym ustr = "nat list"

definition u :: "string \<Rightarrow> ustr" where
  "u s = map of_char s"

text \<open>
  \<open>str.isspace\<close> on one code point, which is also what \<open>\s\<close> matches in a
  \<open>str\<close> pattern and what \<open>str.strip()\<close> removes: the ASCII controls
  9..13 and 28..31, the space, and the Unicode separators.
\<close>

definition py_isspace :: "nat \<Rightarrow> bool" where
  "py_isspace c =
     ((9 \<le> c \<and> c \<le> 13) \<or> (28 \<le> c \<and> c \<le> 32) \<or> c = 133 \<or> c = 160 \<or> c = 5760
      \<or> (8192 \<le> c \<and> c \<le> 8202) \<or> c = 8232 \<or> c = 8233 \<or> c = 8239 \<or> c = 8287
      \<or> c = 12288)"

text \<open>The line boundaries of \<open>str.splitlines\<close> other than the pair CR LF.\<close>

definition py_islinebreak :: "nat \<Rightarrow> bool" where
  "py_islinebreak c =
     ((10 \<le> c \<and> c \<le> 13) \<or> (28 \<le> c \<and> c \<le> 30) \<or> c = 133 \<or> c = 8232 \<or> c = 8233)"

definition lstrip :: "ustr \<Rightarrow> ustr" where
  "lstrip s = dropWhile py_isspace s"

definition rstrip :: "ustr \<Rightarrow> ustr" where
  "rstrip s = rev (dropWhile py_isspace (rev s))"

definition strip :: "ustr \<Rightarrow> ustr" where
  "strip s = rstrip (lstrip s)"

text \<open>\<open>s.lstrip(chars)\<close> and \<open>s.rstrip(chars)\<close> for a one-character set.\<close>

definition lstrip_char :: "nat \<Rightarrow> ustr \<Rightarrow> ustr" where
  "lstrip_char c s = dropWhile (\<lambda>x. x = c) s"

definition rstrip_char :: "nat \<Rightarrow> ustr \<Rightarrow> ustr" where
  "rstrip_char c s = rev (dropWhile (\<lambda>x. x = c) (rev s))"

fun startswith :: "ustr \<Rightarrow> ustr \<Rightarrow> bool" where
  "startswith s [] = True"
| "startswith [] (p # ps) = False"
| "startswith (x # xs) (p # ps) = (x = p \<and> startswith xs ps)"

definition endswith :: "ustr \<Rightarrow> ustr \<Rightarrow> bool" where
  "endswith s p = startswith (rev s) (rev p)"

text \<open>\<open>p in s\<close> for strings.\<close>

fun contains :: "ustr \<Rightarrow> ustr \<Rightarrow> bool" where
  "contains [] p = (p = [])"
| "contains (x # xs) p = (startswith (x # xs) p \<or> contains xs p)"

text \<open>\<open>s.replace(a, b)\<close> for single characters.\<close>

definition replace_char :: "nat \<Rightarrow> nat \<Rightarrow> ustr \<Rightarrow> ustr" where
  "replace_char a b s = map (\<lambda>x. if x = a then b else x) s"

text \<open>\<open>str(n)\<close> for a non-negative integer: its decimal digits.\<close>

fun str_nat :: "nat \<Rightarrow> ustr" where
  "str_nat n = (if n < 10 then [48 + n] else str_nat (n div 10) @ [48 + n mod 10])"

text \<open>
  \<open>s.splitlines(True)\<close>: the lines with their line ends kept. \<open>cur\<close> is the
  line read so far, reversed.
\<close>

fun splitlines_from :: "ustr \<Rightarrow> ustr \<Rightarrow> ustr list" where
  "splitlines_from cur [] = (if cur = [] then [] else [rev cur])"
| "splitlines_from cur [c] = [rev (c # cur)]"
| "splitlines_from cur (c # d # xs) =
     (if c = 13 \<and> d = 10 then rev (d # c # cur) # splitlines_from [] xs
      else if py_islinebreak c then rev (c # cur) # splitlines_from [] (d # xs)
      else splitlines_from (c # cur) (d # xs))"

definition splitlines :: "ustr \<Rightarrow> ustr list" where
  "splitlines s = splitlines_from [] s"

text \<open>The order-preserving removal of duplicates (first occurrence kept).\<close>

fun uniq_from :: "ustr list \<Rightarrow> ustr list \<Rightarrow> ustr list" where
  "uniq_from seen [] = []"
| "uniq_from seen (t # ts) =
     (if t \<in> set seen then uniq_from seen ts else t # uniq_from (t # seen) ts)"

section \<open>Regular expressions with Python's backtracking order\<close>

text \<open>
  The patterns of the source are kept as syntax trees and run by one matcher. The
  matcher returns every way to match, in the order in which Python's backtracking
  tries them, so the head of the list is the match \<open>re.match\<close> reports.
  A state is the list of groups captured so far and the text still to read.
\<close>

datatype re =
    Lit nat
  | Cls "nat \<Rightarrow> bool"
  | Seq re re
  | Alt re re
  | Rep bool nat "nat option" re
  | Grp re
  | Bos
  | Eos
  | Eps

type_synonym mstate = "ustr list \<times> ustr"

function run :: "nat \<Rightarrow> re \<Rightarrow> mstate \<Rightarrow> mstate list" where
  "run n (Lit c) (cs, s) = (case s of [] \<Rightarrow> [] | x # xs \<Rightarrow> if x = c then [(cs, xs)] else [])"
| "run n (Cls p) (cs, s) = (case s of [] \<Rightarrow> [] | x # xs \<Rightarrow> if p x then [(cs, xs)] else [])"
| "run n (Seq a b) (cs, s) = concat (map (run n b) (run n a (cs, s)))"
| "run n (Alt a b) (cs, s) = run n a (cs, s) @ run n b (cs, s)"
| "run n (Rep greedy mn mx r) (cs, s) =
     (let more =
            (if mx = Some 0 then []
             else concat (map (\<lambda>st. if length (snd st) < length s
                                      then run n (Rep greedy (mn - 1) (map_option (\<lambda>m. m - 1) mx) r) st
                                      else [])
                              (run n r (cs, s))));
          stop = (if mn = 0 then [(cs, s)] else [])
      in if greedy then more @ stop else stop @ more)"
| "run n (Grp r) (cs, s) =
     map (\<lambda>st. (fst st @ [take (length s - length (snd st)) s], snd st)) (run n r (cs, s))"
| "run n Bos (cs, s) = (if length s = n then [(cs, s)] else [])"
| "run n Eos (cs, s) = (if s = [] \<or> s = [10] then [(cs, s)] else [])"
| "run n Eps (cs, s) = [(cs, s)]"
  by pat_completeness auto
termination
  by (relation "measures [\<lambda>(n, r, st). size r, \<lambda>(n, r, st). length (snd st)]") auto

text \<open>
  \<open>pattern.match(s)\<close>: the groups and the text after the end of the match, or
  \<open>None\<close>.
\<close>

definition re_match :: "re \<Rightarrow> ustr \<Rightarrow> (ustr list \<times> ustr) option" where
  "re_match r s = (case run (length s) r ([], s) of [] \<Rightarrow> None | st # _ \<Rightarrow> Some st)"

text \<open>\<open>m.group(k)\<close>, groups counted from 1.\<close>

definition group :: "ustr list \<Rightarrow> nat \<Rightarrow> ustr" where
  "group gs k = gs ! (k - 1)"

definition seqs :: "re list \<Rightarrow> re" where
  "seqs rs = foldr Seq rs Eps"

definition lits :: "ustr \<Rightarrow> re" where
  "lits s = seqs (map Lit s)"

text \<open>The greedy quantifiers \<open>r*\<close>, \<open>r+\<close>, \<open>r?\<close> and the class \<open>\s\<close>.\<close>

abbreviation rstar :: "re \<Rightarrow> re" where "rstar r \<equiv> Rep True 0 None r"
abbreviation rplus :: "re \<Rightarrow> re" where "rplus r \<equiv> Rep True 1 None r"
abbreviation ropt :: "re \<Rightarrow> re" where "ropt r \<equiv> Rep True 0 (Some 1) r"
abbreviation ws :: re where "ws \<equiv> Cls py_isspace"

text \<open>The dot: any character with \<open>re.DOTALL\<close>, any but the newline without.\<close>

abbreviation dotall :: re where "dotall \<equiv> Cls (\<lambda>c. True)"
abbreviation dot :: re where "dot \<equiv> Cls (\<lambda>c. c \<noteq> 10)"

section \<open>Front matter (converter/md_to_confluence_storage.py)\<close>

text \<open>
  The values \<open>yaml.safe_load\<close> returns, as far as the code looks at them: a
  mapping, a sequence, a string, an integer, a boolean, \<open>None\<close>, or another
  scalar (a float, a date) of which only the truth value matters.
\<close>

datatype yaml =
    YNone
  | YBool bool
  | YInt int
  | YStr ustr
  | YSeq "yaml list"
  | YMap "(yaml \<times> yaml) list"
  | YScalar bool

text \<open>Python's truth value of such a value (\<open>x or default\<close>).\<close>

fun truthy :: "yaml \<Rightarrow> bool" where
  "truthy YNone = False"
| "truthy (YBool b) = b"
| "truthy (YInt i) = (i \<noteq> 0)"
| "truthy (YStr s) = (s \<noteq> [])"
| "truthy (YSeq xs) = (xs \<noteq> [])"
| "truthy (YMap kvs) = (kvs \<noteq> [])"
| "truthy (YScalar b) = b"

text \<open>
  Exceptions: the source tells \<open>RuntimeError\<close> (with its message) from every
  other exception class.
\<close>

datatype exn = RuntimeError ustr | OtherError ustr

text \<open>\<open>_FRONT_MATTER_RE = re.compile(r"^---\s*\n(.*?)\n---\s*\n", re.DOTALL)\<close>\<close>

definition FRONT_MATTER_RE :: re where
  "FRONT_MATTER_RE =
     seqs [Bos, lits (u ''---''), rstar ws, Lit 10, Grp (Rep False 0 None dotall),
           Lit 10, lits (u ''---''), rstar ws, Lit 10]"

text \<open>
  \<open>strip_front_matter\<close>. The YAML parser is a library function, so it is a
  parameter: \<open>safe_load raw\<close> is the parsed value, or the exception
  \<open>yaml.safe_load\<close> raises on \<open>raw\<close>. The source calls it with no handler.
\<close>

definition strip_front_matter :: "(ustr \<Rightarrow> exn + yaml) \<Rightarrow> ustr \<Rightarrow> exn + (yaml \<times> ustr)" where
  "strip_front_matter safe_load md =
     (case re_match FRONT_MATTER_RE md of
        None \<Rightarrow> Inr (YMap [], md)
      | Some (groups, body) \<Rightarrow>
          (case safe_load (group groups 1) of
             Inl e \<Rightarrow> Inl e
           | Inr v \<Rightarrow> Inr (if truthy v then v else YMap [], body)))"

section \<open>Markdown normalisation (converter/md_to_confluence_storage.py)\<close>

text \<open>
  The options of \<open>MdToConfluenceStorage\<close> that the normaliser and the link
  rewriting read. A link resolver returns a new href or \<open>None\<close>, or raises.
\<close>

record conv_cfg =
  strip_title_h1 :: bool
  promote_headings :: bool
  strip_heading_numbers :: bool
  heading_numbering_in_text :: bool
  heading_numbering_max_level :: int
  link_resolver :: "(ustr \<Rightarrow> ustr option \<Rightarrow> exn + ustr option) option"

text \<open>\<open>_FENCE_RE = re.compile(r"^\s*(```|~~~)")\<close>; 96 is the backtick, 126 the tilde.\<close>

definition FENCE_RE :: re where
  "FENCE_RE = seqs [Bos, rstar ws, Grp (Alt (lits [96, 96, 96]) (lits [126, 126, 126]))]"

text \<open>\<open>_HEADING_RE = re.compile(r"^(#{1,6})\s+(.+?)\s*$")\<close>; 35 is the hash sign.\<close>

definition HEADING_RE :: re where
  "HEADING_RE =
     seqs [Bos, Grp (Rep True 1 (Some 6) (Lit 35)), rplus ws, Grp (Rep False 1 None dot),
           rstar ws, Eos]"

text \<open>
  \<open>_HEADING_NUM_PREFIX_RE = re.compile(
     r"^\s*(?:\d+\)|\d+\.(?:\d+(?:\.\d+)*)?\.?|\d+(?:\.\d+)+)\s+(.*)$")\<close>.
  In a \<open>str\<close> pattern \<open>\d\<close> is any Unicode decimal digit; that table belongs to
  the interpreter, so the class is the parameter \<open>isdecimal\<close>. 41 is the closing
  parenthesis, 46 the full stop.
\<close>

definition HEADING_NUM_PREFIX_RE :: "(nat \<Rightarrow> bool) \<Rightarrow> re" where
  "HEADING_NUM_PREFIX_RE isdecimal =
     (let d = Cls isdecimal in
      seqs [Bos, rstar ws,
            Alt (seqs [rplus d, Lit 41])
           (Alt (seqs [rplus d, Lit 46, ropt (seqs [rplus d, rstar (seqs [Lit 46, rplus d])]),
                       ropt (Lit 46)])
                (seqs [rplus d, rplus (seqs [Lit 46, rplus d])])),
            rplus ws, Grp (rstar dot), Eos])"

definition strip_heading_number_prefix :: "(nat \<Rightarrow> bool) \<Rightarrow> 'a conv_cfg_scheme \<Rightarrow> ustr \<Rightarrow> ustr" where
  "strip_heading_number_prefix isdecimal cfg text =
     (if \<not> strip_heading_numbers cfg then text
      else strip (case re_match (HEADING_NUM_PREFIX_RE isdecimal) text of
                    Some (gs, rest) \<Rightarrow> group gs 1
                  | None \<Rightarrow> text))"

text \<open>The local variables of the loop of \<open>_normalize_markdown\<close>.\<close>

record norm_state =
  in_fence :: bool
  removed_first_h1 :: bool
  n1 :: nat
  n2 :: nat
  n3 :: nat

definition norm_init :: norm_state where
  "norm_init = \<lparr>in_fence = False, removed_first_h1 = False, n1 = 0, n2 = 0, n3 = 0\<rparr>"

text \<open>\<open>max_lvl = max(1, min(int(self.heading_numbering_max_level or 3), 6))\<close>\<close>

definition max_lvl :: "'a conv_cfg_scheme \<Rightarrow> int" where
  "max_lvl cfg =
     max 1 (min (if heading_numbering_max_level cfg = 0 then 3
                 else heading_numbering_max_level cfg) 6)"

text \<open>
  The three branches that count a heading of the (promoted) level and build its
  prefix: the new counters and the prefix.
\<close>

definition number_heading :: "nat \<Rightarrow> nat \<times> nat \<times> nat \<Rightarrow> (nat \<times> nat \<times> nat) \<times> ustr" where
  "number_heading level c =
     (case c of (a, b, d) \<Rightarrow>
        if level = 1 then ((a + 1, 0, 0), str_nat (a + 1) @ u ''. '')
        else if level = 2 then
          (let a' = (if a = 0 then 1 else a) in
           ((a', b + 1, 0), str_nat a' @ u ''.'' @ str_nat (b + 1) @ u ''. ''))
        else
          (let a' = (if a = 0 then 1 else a); b' = (if b = 0 then 1 else b) in
           ((a', b', d + 1),
            str_nat a' @ u ''.'' @ str_nat b' @ u ''.'' @ str_nat (d + 1) @ u ''. '')))"

text \<open>\<open>if self.promote_headings and level > 1: level -= 1\<close>\<close>

definition promoted_level :: "'a conv_cfg_scheme \<Rightarrow> nat \<Rightarrow> nat" where
  "promoted_level cfg level = (if promote_headings cfg \<and> level > 1 then level - 1 else level)"

text \<open>The three counters of a state.\<close>

definition counters :: "norm_state \<Rightarrow> nat \<times> nat \<times> nat" where
  "counters st = (n1 st, n2 st, n3 st)"

text \<open>The line without its line end, and the line end (CR LF, LF or nothing).\<close>

definition split_nl :: "ustr \<Rightarrow> ustr \<times> ustr" where
  "split_nl line =
     (if endswith line [13, 10] then (take (length line - 2) line, [13, 10])
      else if endswith line [10] then (take (length line - 1) line, [10])
      else (line, []))"

text \<open>
  One turn of the loop: the new local variables and the line appended to
  \<open>out\<close>, or \<open>None\<close> when the turn ends in \<open>continue\<close> with nothing appended.
\<close>

definition norm_line :: "(nat \<Rightarrow> bool) \<Rightarrow> 'a conv_cfg_scheme \<Rightarrow> norm_state \<Rightarrow> ustr \<Rightarrow> norm_state \<times> ustr option" where
  "norm_line isdecimal cfg st line =
     (case split_nl line of (core, nl) \<Rightarrow>
        if re_match FENCE_RE core \<noteq> None then (st\<lparr>in_fence := \<not> in_fence st\<rparr>, Some (core @ nl))
        else if in_fence st then (st, Some (core @ nl))
        else
          (case re_match HEADING_RE core of
             None \<Rightarrow> (st, Some (core @ nl))
           | Some (gs, rest) \<Rightarrow>
               (let level = length (group gs 1); text = group gs 2 in
                if level = 1 \<and> strip_title_h1 cfg \<and> \<not> removed_first_h1 st
                then (st\<lparr>removed_first_h1 := True\<rparr>, None)
                else
                  (let level = promoted_level cfg level;
                       text = strip_heading_number_prefix isdecimal cfg text
                   in if heading_numbering_in_text cfg \<and> level \<le> 3 \<and> int level \<le> max_lvl cfg
                      then
                        (case number_heading level (n1 st, n2 st, n3 st) of
                           ((a, b, d), prefix) \<Rightarrow>
                             (st\<lparr>n1 := a, n2 := b, n3 := d\<rparr>,
                              Some (replicate level 35 @ [32]
                                    @ (if startswith text prefix then text else prefix @ text)
                                    @ nl)))
                      else (st, Some (replicate level 35 @ [32] @ text @ nl))))))"

fun norm_lines :: "(nat \<Rightarrow> bool) \<Rightarrow> 'a conv_cfg_scheme \<Rightarrow> norm_state \<Rightarrow> ustr list \<Rightarrow> ustr list" where
  "norm_lines isdecimal cfg st [] = []"
| "norm_lines isdecimal cfg st (l # ls) =
     (case norm_line isdecimal cfg st l of
        (st', None) \<Rightarrow> norm_lines isdecimal cfg st' ls
      | (st', Some out) \<Rightarrow> out # norm_lines isdecimal cfg st' ls)"

definition normalize_markdown :: "(nat \<Rightarrow> bool) \<Rightarrow> 'a conv_cfg_scheme \<Rightarrow> ustr \<Rightarrow> ustr" where
  "normalize_markdown isdecimal cfg body =
     (if \<not> (strip_title_h1 cfg \<or> promote_headings cfg \<or> strip_heading_numbers cfg
             \<or> heading_numbering_in_text cfg)
      then body
      else concat (norm_lines isdecimal cfg norm_init (splitlines body)))"

text \<open>The ASCII digits: what every table of decimal digits holds below 128.\<close>

definition ascii_digit :: "nat \<Rightarrow> bool" where
  "ascii_digit c = (48 \<le> c \<and> c \<le> 57)"

section \<open>Link rewriting (converter/md_to_confluence_storage.py)\<close>

text \<open>
  An anchor of the parsed fragment is the mapping of its attributes.
  \<open>rewrite_link\<close> is one turn of the loop of \<open>_rewrite_links\<close>;
  \<open>lower\<close> is \<open>str.lower\<close>, a function of the interpreter.
\<close>

type_synonym anchor = "string \<rightharpoonup> ustr"

definition looks_internal_md :: "(ustr \<Rightarrow> ustr) \<Rightarrow> ustr \<Rightarrow> bool" where
  "looks_internal_md lower href =
     (endswith (lower href) (u ''.md'') \<or> contains (lower href) (u ''.md#''))"

definition rewrite_link :: "(ustr \<Rightarrow> ustr) \<Rightarrow> 'a conv_cfg_scheme \<Rightarrow> ustr option \<Rightarrow> anchor \<Rightarrow> exn + anchor" where
  "rewrite_link lower cfg current_path a =
     (let href = strip (case a ''href'' of None \<Rightarrow> [] | Some h \<Rightarrow> h);
          marked = (if looks_internal_md lower href then a(''data-source-href'' \<mapsto> href) else a)
      in if href = [] then Inr a
         else
           (case link_resolver cfg of
              None \<Rightarrow> Inr marked
            | Some f \<Rightarrow>
                (case f href current_path of
                   Inl e \<Rightarrow> Inl e
                 | Inr None \<Rightarrow> Inr marked
                 | Inr (Some new_href) \<Rightarrow>
                     if new_href \<noteq> [] then Inr (a(''href'' \<mapsto> new_href)) else Inr marked)))"

fun rewrite_links :: "(ustr \<Rightarrow> ustr) \<Rightarrow> 'a conv_cfg_scheme \<Rightarrow> ustr option \<Rightarrow> anchor list \<Rightarrow> exn + anchor list" where
  "rewrite_links lower cfg current_path [] = Inr []"
| "rewrite_links lower cfg current_path (a # as) =
     (case rewrite_link lower cfg current_path a of
        Inl e \<Rightarrow> Inl e
      | Inr a' \<Rightarrow>
          (case rewrite_links lower cfg current_path as of
             Inl e \<Rightarrow> Inl e
           | Inr as' \<Rightarrow> Inr (a' # as')))"

section \<open>The publisher (publish_docs.py)\<close>

subsection \<open>Library functions, configuration, the client\<close>

text \<open>
  What \<open>urllib.parse.urlparse\<close> returns, as far as the code reads it.
\<close>

record url =
  url_scheme :: ustr
  url_netloc :: ustr
  url_path :: ustr
  url_fragment :: ustr

text \<open>
  The functions of the standard library that the publisher calls; they are
  parameters of the model.
  \<^item> \<open>sha1_hex s\<close> is \<open>hashlib.sha1(s.encode("utf-8")).hexdigest()\<close>;
  \<^item> \<open>str_lower\<close> is \<open>str.lower\<close>;
  \<^item> \<open>urlparse\<close> is \<open>urllib.parse.urlparse\<close> (it raises \<open>ValueError\<close> on some inputs);
  \<^item> \<open>unquote\<close> is \<open>urllib.parse.unquote\<close>;
  \<^item> \<open>normpath\<close> is \<open>posixpath.normpath\<close>;
  \<^item> \<open>parent_join cur p\<close> is \<open>(PurePosixPath(cur).parent / p).as_posix()\<close>.
\<close>

record pylib =
  sha1_hex :: "ustr \<Rightarrow> ustr"
  str_lower :: "ustr \<Rightarrow> ustr"
  urlparse :: "ustr \<Rightarrow> exn + url"
  unquote :: "ustr \<Rightarrow> ustr"
  normpath :: "ustr \<Rightarrow> ustr"
  parent_join :: "ustr \<Rightarrow> ustr \<Rightarrow> ustr"

text \<open>
  \<open>Cfg\<close>: the fields the modelled methods read. \<open>options\<close> gives the truth value
  of each option that is set.
\<close>

record Cfg =
  base_url :: ustr
  space :: ustr
  docs_root_id :: ustr
  options :: "string \<rightharpoonup> bool"

text \<open>\<open>bool(options.get(name, default))\<close>\<close>

definition opt_get :: "(string \<rightharpoonup> bool) \<Rightarrow> string \<Rightarrow> bool \<Rightarrow> bool" where
  "opt_get opts name dflt = (case opts name of None \<Rightarrow> dflt | Some b \<Rightarrow> b)"

text \<open>
  A page as \<open>find_page_by_title\<close> returns it: its id and the ids of its
  ancestors. The value written by \<open>write_source_meta\<close>.
\<close>

record page_json =
  pj_id :: ustr
  pj_ancestors :: "ustr list"

record payload =
  p_key :: ustr
  p_title :: ustr
  p_src_hash :: ustr
  p_meta_labels :: "ustr list"

text \<open>
  The client \<open>self.conf\<close> is an object the publisher is given (the tests put
  their own in its place), so its methods are parameters: each takes the state
  \<open>'r\<close> of the remote side and returns what the method returns, or the exception
  it raises, and the new state. \<open>create_page\<close> returns the field \<open>"id"\<close> of the
  answer, if it has one.
\<close>

record 'r Confluence =
  create_page :: "ustr \<Rightarrow> ustr \<Rightarrow> ustr \<Rightarrow> ustr \<Rightarrow> 'r \<Rightarrow> (exn + ustr option) \<times> 'r"
  update_page :: "ustr \<Rightarrow> ustr \<Rightarrow> ustr \<Rightarrow> ustr \<Rightarrow> ustr \<Rightarrow> 'r \<Rightarrow> (exn + unit) \<times> 'r"
  add_labels :: "ustr \<Rightarrow> ustr list \<Rightarrow> 'r \<Rightarrow> (exn + unit) \<times> 'r"
  put_property :: "ustr \<Rightarrow> ustr \<Rightarrow> payload \<Rightarrow> 'r \<Rightarrow> (exn + unit) \<times> 'r"
  delete_label :: "ustr \<Rightarrow> ustr \<Rightarrow> 'r \<Rightarrow> (exn + unit) \<times> 'r"
  find_page_by_title :: "ustr \<Rightarrow> ustr \<Rightarrow> 'r \<Rightarrow> (exn + page_json option) \<times> 'r"

text \<open>The fields of \<open>DocsPublisher\<close> that never change after \<open>__init__\<close>.\<close>

record 'r publisher =
  cfg :: Cfg
  conf :: "'r Confluence"
  managed_label :: ustr

text \<open>
  The calls made on the client, with their arguments and how each ended. The
  list of calls is kept beside the state so that theorems can say which calls a
  method makes; the code does not read it.
\<close>

datatype call =
    CreatePage ustr ustr ustr ustr
  | UpdatePage ustr ustr ustr ustr ustr
  | AddLabels ustr "ustr list"
  | PutProperty ustr ustr payload
  | DeleteLabel ustr ustr
  | FindPageByTitle ustr ustr

datatype outcome =
    Raised exn
  | Returned
  | ReturnedId "ustr option"
  | ReturnedPage "page_json option"

text \<open>
  The state that changes: the three in-memory indexes of \<open>DocsPublisher\<close>, the
  remote side, and the calls made so far.
\<close>

record 'r world =
  key_to_page :: "ustr \<rightharpoonup> ustr"
  label_to_page :: "ustr \<rightharpoonup> ustr"
  path_to_page :: "ustr \<rightharpoonup> ustr"
  remote :: 'r
  calls :: "(call \<times> outcome) list"

text \<open>
  A computation returns a value or raises, and leaves a state either way.
  \<open>and_then\<close> is sequencing (an exception ends the sequence), \<open>attempt\<close> is
  \<open>try: ... except Exception: pass\<close>.
\<close>

type_synonym ('a, 's) comp = "'s \<Rightarrow> (exn + 'a) \<times> 's"

definition and_then :: "('a, 's) comp \<Rightarrow> ('a \<Rightarrow> ('b, 's) comp) \<Rightarrow> ('b, 's) comp" where
  "and_then m f s = (case m s of (Inl e, s') \<Rightarrow> (Inl e, s') | (Inr x, s') \<Rightarrow> f x s')"

definition ret :: "'a \<Rightarrow> ('a, 's) comp" where
  "ret x s = (Inr x, s)"

definition attempt :: "(unit, 's) comp \<Rightarrow> (unit, 's) comp" where
  "attempt m s = (case m s of (res, s') \<Rightarrow> (Inr (), s'))"

text \<open>One call on the client: run it on the remote side and record it.\<close>

definition invoke :: "call \<Rightarrow> ('r \<Rightarrow> (exn + 'a) \<times> 'r) \<Rightarrow> ('a \<Rightarrow> outcome) \<Rightarrow> ('a, 'r world) comp" where
  "invoke c operation out w =
     (case operation (remote w) of
        (res, r') \<Rightarrow>
          (res, w\<lparr>remote := r',
                  calls := calls w @ [(c, case res of Inl e \<Rightarrow> Raised e | Inr x \<Rightarrow> out x)]\<rparr>))"

definition conf_create_page :: "'r publisher \<Rightarrow> ustr \<Rightarrow> ustr \<Rightarrow> ustr \<Rightarrow> (ustr option, 'r world) comp" where
  "conf_create_page pub parent_id title storage =
     invoke (CreatePage (space (cfg pub)) parent_id title storage)
            (create_page (conf pub) (space (cfg pub)) parent_id title storage) ReturnedId"

definition conf_update_page :: "'r publisher \<Rightarrow> ustr \<Rightarrow> ustr \<Rightarrow> ustr \<Rightarrow> ustr \<Rightarrow> (unit, 'r world) comp" where
  "conf_update_page pub page_id parent_id title storage =
     invoke (UpdatePage page_id (space (cfg pub)) parent_id title storage)
            (update_page (conf pub) page_id (space (cfg pub)) parent_id title storage)
            (\<lambda>x. Returned)"

definition conf_add_labels :: "'r publisher \<Rightarrow> ustr \<Rightarrow> ustr list \<Rightarrow> (unit, 'r world) comp" where
  "conf_add_labels pub page_id labels =
     invoke (AddLabels page_id labels) (add_labels (conf pub) page_id labels) (\<lambda>x. Returned)"

definition conf_put_property :: "'r publisher \<Rightarrow> ustr \<Rightarrow> ustr \<Rightarrow> payload \<Rightarrow> (unit, 'r world) comp" where
  "conf_put_property pub page_id k v =
     invoke (PutProperty page_id k v) (put_property (conf pub) page_id k v) (\<lambda>x. Returned)"

definition conf_delete_label :: "'r publisher \<Rightarrow> ustr \<Rightarrow> ustr \<Rightarrow> (unit, 'r world) comp" where
  "conf_delete_label pub page_id label =
     invoke (DeleteLabel page_id label) (delete_label (conf pub) page_id label) (\<lambda>x. Returned)"

definition conf_find_page_by_title :: "'r publisher \<Rightarrow> ustr \<Rightarrow> (page_json option, 'r world) comp" where
  "conf_find_page_by_title pub title =
     invoke (FindPageByTitle (space (cfg pub)) title)
            (find_page_by_title (conf pub) (space (cfg pub)) title) ReturnedPage"

subsection \<open>Helpers of the module\<close>

definition PROPERTY_KEY :: ustr where
  "PROPERTY_KEY = u ''md2conf_source''"

definition VISIBLE_META_LABELS :: "ustr list" where
  "VISIBLE_META_LABELS = [u ''md'', u ''dir'', u ''section'']"

text \<open>\<open>_label_for(key) = "src-" + _sha1(key)[:12]\<close>\<close>

definition label_for :: "pylib \<Rightarrow> ustr \<Rightarrow> ustr" where
  "label_for L k = u ''src-'' @ take 12 (sha1_hex L k)"

text \<open>\<open>_norm_posix\<close>; 92 is the backslash, 47 the slash.\<close>

definition norm_posix :: "pylib \<Rightarrow> ustr \<Rightarrow> ustr" where
  "norm_posix L p =
     (let p1 = normpath L (replace_char 92 47 p)
      in if startswith p1 (u ''./'') then drop 2 p1 else p1)"

subsection \<open>\<open>DocsPublisher.ensure_page\<close>\<close>

definition is_title_exists :: "ustr \<Rightarrow> bool" where
  "is_title_exists err =
     (contains err (u ''A page with this title already exists'') \<or> contains err (u ''already exists''))"

text \<open>
  \<open>title_candidates\<close>, a closure over \<open>key\<close> and \<open>collision_prefix\<close>.
  The separator of the prefixed title is a space, the middle dot U+00B7 (183) and
  a space.
\<close>

definition title_candidates :: "pylib \<Rightarrow> ustr \<Rightarrow> ustr option \<Rightarrow> ustr \<Rightarrow> ustr list" where
  "title_candidates L k collision_prefix title =
     (let base = strip title;
          out1 = (if base \<noteq> [] then [base] else []);
          out2 = (case collision_prefix of
                    None \<Rightarrow> []
                  | Some cp \<Rightarrow>
                      if cp = [] then []
                      else (let pref = strip cp
                            in if pref \<noteq> [] \<and> \<not> startswith base pref
                               then [pref @ [32, 183, 32] @ base] else []));
          short = take 6 (sha1_hex L k);
          out3 = [base @ u '' ['' @ short @ u '']'']
      in uniq_from [] (out1 @ out2 @ out3))"

text \<open>
  The loop of \<open>try_update\<close> over the candidates still to try; \<open>last_err\<close> is the
  last collision seen.
\<close>

fun try_update_loop :: "'r publisher \<Rightarrow> ustr \<Rightarrow> ustr \<Rightarrow> ustr \<Rightarrow> exn option \<Rightarrow> ustr list \<Rightarrow> (ustr, 'r world) comp" where
  "try_update_loop pub page_id parent_id storage last_err [] w =
     (Inl (case last_err of Some e \<Rightarrow> e | None \<Rightarrow> RuntimeError (u ''Update failed (unknown)'')), w)"
| "try_update_loop pub page_id parent_id storage last_err (t # ts) w =
     (case conf_update_page pub page_id parent_id t storage w of
        (Inr x, w') \<Rightarrow> (Inr t, w')
      | (Inl (RuntimeError msg), w') \<Rightarrow>
          if is_title_exists msg
          then try_update_loop pub page_id parent_id storage (Some (RuntimeError msg)) ts w'
          else (Inl (RuntimeError msg), w')
      | (Inl (OtherError msg), w') \<Rightarrow> (Inl (OtherError msg), w'))"

definition try_update :: "pylib \<Rightarrow> 'r publisher \<Rightarrow> ustr \<Rightarrow> ustr \<Rightarrow> ustr \<Rightarrow> ustr \<Rightarrow> ustr option \<Rightarrow> ustr \<Rightarrow> (ustr, 'r world) comp" where
  "try_update L pub k title parent_id storage collision_prefix page_id =
     try_update_loop pub page_id parent_id storage None (title_candidates L k collision_prefix title)"

text \<open>\<open>_adopt_by_title_under_root\<close>\<close>

definition adopt_by_title_under_root :: "'r publisher \<Rightarrow> ustr \<Rightarrow> (ustr option, 'r world) comp" where
  "adopt_by_title_under_root pub title =
     (if \<not> opt_get (options (cfg pub)) ''adopt_existing_by_title_under_root'' True then ret None
      else and_then (conf_find_page_by_title pub title)
             (\<lambda>found. case found of
                 None \<Rightarrow> ret None
               | Some pg \<Rightarrow>
                   if docs_root_id (cfg pub) \<in> set (pj_ancestors pg) then ret (Some (pj_id pg))
                   else ret None))"

text \<open>The loop of \<open>try_create\<close>; it returns the page id and the title used.\<close>

fun try_create_loop :: "pylib \<Rightarrow> 'r publisher \<Rightarrow> ustr \<Rightarrow> ustr \<Rightarrow> ustr \<Rightarrow> ustr \<Rightarrow> ustr option \<Rightarrow> exn option \<Rightarrow> ustr list \<Rightarrow> (ustr \<times> ustr, 'r world) comp" where
  "try_create_loop L pub k title parent_id storage collision_prefix last_err [] w =
     (Inl (case last_err of Some e \<Rightarrow> e | None \<Rightarrow> RuntimeError (u ''Create failed (unknown)'')), w)"
| "try_create_loop L pub k title parent_id storage collision_prefix last_err (t # ts) w =
     (case conf_create_page pub parent_id t storage w of
        (Inr (Some new_id), w') \<Rightarrow> (Inr (new_id, t), w')
      | (Inr None, w') \<Rightarrow> (Inl (OtherError (u ''KeyError: id'')), w')
      | (Inl (RuntimeError msg), w') \<Rightarrow>
          if is_title_exists msg
          then (case adopt_by_title_under_root pub t w' of
                  (Inl e, w'') \<Rightarrow> (Inl e, w'')
                | (Inr adopted, w'') \<Rightarrow>
                    (case adopted of
                       None \<Rightarrow>
                         try_create_loop L pub k title parent_id storage collision_prefix
                           (Some (RuntimeError msg)) ts w''
                     | Some adopted_id \<Rightarrow>
                         if adopted_id \<noteq> []
                         then and_then
                                (try_update L pub k title parent_id storage collision_prefix adopted_id)
                                (\<lambda>used. ret (adopted_id, used)) w''
                         else try_create_loop L pub k title parent_id storage collision_prefix
                                (Some (RuntimeError msg)) ts w''))
          else (Inl (RuntimeError msg), w')
      | (Inl (OtherError msg), w') \<Rightarrow> (Inl (OtherError msg), w'))"

definition try_create :: "pylib \<Rightarrow> 'r publisher \<Rightarrow> ustr \<Rightarrow> ustr \<Rightarrow> ustr \<Rightarrow> ustr \<Rightarrow> ustr option \<Rightarrow> (ustr \<times> ustr, 'r world) comp" where
  "try_create L pub k title parent_id storage collision_prefix =
     try_create_loop L pub k title parent_id storage collision_prefix None
       (title_candidates L k collision_prefix title)"

text \<open>The loop \<open>for lb2 in VISIBLE_META_LABELS: try: delete_label ... except: pass\<close>.\<close>

fun delete_labels_quietly :: "'r publisher \<Rightarrow> ustr \<Rightarrow> ustr list \<Rightarrow> (unit, 'r world) comp" where
  "delete_labels_quietly pub pid [] w = (Inr (), w)"
| "delete_labels_quietly pub pid (lb2 # lbs) w =
     (case attempt (conf_delete_label pub pid lb2) w of
        (res, w') \<Rightarrow> delete_labels_quietly pub pid lbs w')"

definition write_source_meta :: "pylib \<Rightarrow> 'r publisher \<Rightarrow> ustr \<Rightarrow> ustr \<Rightarrow> ustr \<Rightarrow> ustr list \<Rightarrow> (unit, 'r world) comp" where
  "write_source_meta L pub k pid used_title meta_labels =
     (let pl = \<lparr>p_key = k, p_title = used_title, p_src_hash = take 12 (sha1_hex L k),
                p_meta_labels = map (\<lambda>x. str_lower L (strip x)) (filter (\<lambda>x. strip x \<noteq> []) meta_labels)\<rparr>
      in and_then (conf_put_property pub pid PROPERTY_KEY pl)
           (\<lambda>x. and_then (conf_put_property pub pid (u ''source'') pl)
              (\<lambda>y. if opt_get (options (cfg pub)) ''migrate_legacy_doc_labels'' True
                    then delete_labels_quietly pub pid VISIBLE_META_LABELS
                    else ret ())))"

text \<open>\<open>_ensure_labels\<close>\<close>

definition ensure_labels :: "'r publisher \<Rightarrow> ustr \<Rightarrow> ustr list \<Rightarrow> (unit, 'r world) comp" where
  "ensure_labels pub page_id labels = conf_add_labels pub page_id labels"

text \<open>\<open>self.key_to_page[key] = page_id\<close>\<close>

definition set_key_to_page :: "ustr \<Rightarrow> ustr \<Rightarrow> (unit, 'r world) comp" where
  "set_key_to_page k pid w = (Inr (), w\<lparr>key_to_page := (key_to_page w)(k \<mapsto> pid)\<rparr>)"

text \<open>
  The test \<open>if page_id:\<close> on a value that is a string or \<open>None\<close>: the value
  counts only when it is a non-empty string.
\<close>

definition if_truthy :: "ustr option \<Rightarrow> ustr option" where
  "if_truthy v = (case v of None \<Rightarrow> None | Some x \<Rightarrow> if x \<noteq> [] then Some x else None)"

text \<open>
  The three statements that the branches for an existing page share:
  \<open>used_title = try_update(pid); self._ensure_labels(pid, [self.managed_label] + page_labels);
  write_source_meta(pid, used_title, extra_labels)\<close>.
\<close>

definition update_and_mark :: "pylib \<Rightarrow> 'r publisher \<Rightarrow> ustr \<Rightarrow> ustr \<Rightarrow> ustr \<Rightarrow> ustr \<Rightarrow> ustr list \<Rightarrow> ustr list \<Rightarrow> ustr option \<Rightarrow> ustr \<Rightarrow> (unit, 'r world) comp" where
  "update_and_mark L pub k title parent_id storage extra_labels page_labels collision_prefix pid =
     and_then (try_update L pub k title parent_id storage collision_prefix pid)
       (\<lambda>used. and_then (ensure_labels pub pid (managed_label pub # page_labels))
          (\<lambda>x. write_source_meta L pub k pid used extra_labels))"

text \<open>
  The end of the legacy and of the adoption branch:
  \<open>try: self.conf.delete_label(pid, lb) except Exception: pass;
  self.key_to_page[key] = pid; return pid\<close>.
\<close>

definition drop_label_and_claim :: "'r publisher \<Rightarrow> ustr \<Rightarrow> ustr \<Rightarrow> ustr \<Rightarrow> (ustr, 'r world) comp" where
  "drop_label_and_claim pub k lb pid =
     and_then (attempt (conf_delete_label pub pid lb))
       (\<lambda>x. and_then (set_key_to_page k pid) (\<lambda>y. ret pid))"

text \<open>\<open>ensure_page\<close>, its four branches in the order of the source.\<close>

definition ensure_page :: "pylib \<Rightarrow> 'r publisher \<Rightarrow> ustr \<Rightarrow> ustr \<Rightarrow> ustr \<Rightarrow> ustr \<Rightarrow> ustr list \<Rightarrow> ustr list option \<Rightarrow> ustr option \<Rightarrow> (ustr, 'r world) comp" where
  "ensure_page L pub k title parent_id storage extra_labels page_labels0 collision_prefix w =
     (let page_labels = (case page_labels0 of None \<Rightarrow> [] | Some ls \<Rightarrow> ls);
          lb = label_for L k;
          existing = update_and_mark L pub k title parent_id storage extra_labels page_labels
                       collision_prefix
      in case if_truthy (key_to_page w k) of
           Some page_id \<Rightarrow> and_then (existing page_id) (\<lambda>x. ret page_id) w
         | None \<Rightarrow>
             (case if_truthy (label_to_page w lb) of
                Some legacy_id \<Rightarrow>
                  and_then (existing legacy_id) (\<lambda>x. drop_label_and_claim pub k lb legacy_id) w
              | None \<Rightarrow>
                  and_then (adopt_by_title_under_root pub title)
                    (\<lambda>adopted.
                       case if_truthy adopted of
                         Some adopted_id \<Rightarrow>
                           and_then (existing adopted_id)
                             (\<lambda>x. drop_label_and_claim pub k lb adopted_id)
                       | None \<Rightarrow>
                           and_then (try_create L pub k title parent_id storage collision_prefix)
                             (\<lambda>created.
                                and_then (ensure_labels pub (fst created) (managed_label pub # page_labels))
                                  (\<lambda>x. and_then (write_source_meta L pub k (fst created) (snd created)
                                                    extra_labels)
                                     (\<lambda>y. and_then (set_key_to_page k (fst created))
                                        (\<lambda>z. ret (fst created)))))) w))"

subsection \<open>\<open>publish_entry\<close> and \<open>_link_resolver\<close>\<close>

text \<open>
  \<open>Entry\<close>, without the \<open>Path\<close> object that \<open>publish_entry\<close> does not read, and
  the two fields of \<open>ConversionResult\<close> it reads.
\<close>

record Entry =
  e_current_path :: ustr
  e_md_text :: ustr
  e_title :: ustr
  e_key :: ustr
  e_parent_id :: ustr
  e_collision_prefix :: ustr
  e_rename_from_key :: "ustr option"
  e_rename_from_path :: "ustr option"

record ConversionResult =
  cr_storage :: ustr
  cr_front_matter :: yaml

text \<open>
  \<open>publish_entry\<close>, a closure of \<open>publish_all\<close>. The converter \<open>conv.convert\<close>
  renders Markdown with libraries outside the repository, and
  \<open>extract_tag_labels\<close> only computes the labels passed on, so both are
  parameters: \<open>convert md_text current_path\<close> is the result or the exception raised.
\<close>

definition publish_entry :: "pylib \<Rightarrow> 'r publisher \<Rightarrow> (ustr \<Rightarrow> ustr \<Rightarrow> exn + ConversionResult) \<Rightarrow> (yaml \<Rightarrow> ustr list) \<Rightarrow> Entry \<Rightarrow> (ustr, 'r world) comp" where
  "publish_entry L pub convert extract_tag_labels e w =
     (let w1 = (case if_truthy (e_rename_from_key e) of
                  None \<Rightarrow> w
                | Some rk \<Rightarrow>
                    if rk \<noteq> e_key e then
                      (case if_truthy (key_to_page w rk) of
                         None \<Rightarrow> w
                       | Some old_pid \<Rightarrow>
                           if e_key e \<notin> dom (key_to_page w)
                           then w\<lparr>key_to_page := (key_to_page w)(e_key e \<mapsto> old_pid)\<rparr>
                           else w)
                    else w)
      in case convert (e_md_text e) (e_current_path e) of
           Inl ex \<Rightarrow> (Inl ex, w1)
         | Inr res \<Rightarrow>
             (case ensure_page L pub (e_key e) (e_title e) (e_parent_id e) (cr_storage res)
                     [u ''md''] (Some (extract_tag_labels (cr_front_matter res)))
                     (Some (e_collision_prefix e)) w1 of
                (Inl ex, w2) \<Rightarrow> (Inl ex, w2)
              | (Inr page_id, w2) \<Rightarrow>
                  (let w3 = w2\<lparr>path_to_page := (path_to_page w2)(e_current_path e \<mapsto> page_id)\<rparr>;
                       w4 = (case if_truthy (e_rename_from_path e) of
                               None \<Rightarrow> w3
                             | Some rp \<Rightarrow> w3\<lparr>path_to_page := (path_to_page w3)(rp := None)\<rparr>);
                       w5 = (case if_truthy (e_rename_from_key e) of
                               None \<Rightarrow> w4
                             | Some rk \<Rightarrow>
                                 if rk \<noteq> e_key e \<and> key_to_page w4 rk = Some page_id
                                 then w4\<lparr>key_to_page := (key_to_page w4)(rk := None)\<rparr>
                                 else w4)
                   in (Inr page_id, w5))))"

text \<open>
  The part of \<open>publish_all\<close> that fills the rename fields of an entry from a
  change \<open>R old new\<close>: \<open>key = "file:" + current_path\<close>,
  \<open>rename_from_path = old_path\<close>, \<open>rename_from_key = "file:" + old_path\<close>.
\<close>

definition renamed_entry :: "ustr \<Rightarrow> ustr \<Rightarrow> ustr \<Rightarrow> ustr \<Rightarrow> ustr \<Rightarrow> ustr \<Rightarrow> Entry" where
  "renamed_entry old_path current_path md_text title parent_id collision_prefix =
     \<lparr>e_current_path = current_path, e_md_text = md_text, e_title = title,
      e_key = u ''file:'' @ current_path, e_parent_id = parent_id,
      e_collision_prefix = collision_prefix,
      e_rename_from_key = Some (u ''file:'' @ old_path),
      e_rename_from_path = Some old_path\<rparr>"

text \<open>
  \<open>_link_resolver\<close>; it reads \<open>cfg.base_url\<close> and \<open>path_to_page\<close>. 35 is the
  hash sign, 47 the slash.
\<close>

definition context_path :: "ustr \<Rightarrow> ustr" where
  "context_path parsed_path =
     (let b1 = rstrip_char 47 parsed_path;
          b2 = (if endswith b1 (u ''/rest/api'') then take (length b1 - length (u ''/rest/api'')) b1 else b1)
      in if b2 \<noteq> [] \<and> \<not> startswith b2 (u ''/'') then u ''/'' @ b2 else b2)"

definition publisher_link_resolver :: "pylib \<Rightarrow> Cfg \<Rightarrow> (ustr \<rightharpoonup> ustr) \<Rightarrow> ustr \<Rightarrow> ustr option \<Rightarrow> exn + ustr option" where
  "publisher_link_resolver L c p2p href current_path =
     (case if_truthy current_path of
        None \<Rightarrow> Inr None
      | Some cur_path \<Rightarrow>
          (case urlparse L href of
             Inl ex \<Rightarrow> Inl ex
           | Inr uu \<Rightarrow>
               if url_scheme uu \<noteq> [] \<or> startswith href [35] then Inr None
               else
                 (let p0 = unquote L (url_path uu);
                      p = (if startswith p0 [47] then lstrip_char 47 p0 else p0)
                  in if \<not> endswith (str_lower L p) (u ''.md'') then Inr None
                     else
                       (let target = norm_posix L (parent_join L (norm_posix L cur_path) p)
                        in case if_truthy (p2p target) of
                             None \<Rightarrow> Inr None
                           | Some page_id \<Rightarrow>
                               (case urlparse L (base_url c) of
                                  Inl ex \<Rightarrow> Inl ex
                                | Inr parsed \<Rightarrow>
                                    (let url0 = context_path (url_path parsed)
                                                @ u ''/pages/viewpage.action?pageId='' @ page_id
                                     in Inr (Some (if url_fragment uu \<noteq> []
                                                   then url0 @ [35] @ url_fragment uu
                                                   else url0))))))))"

subsection \<open>Repeated publishing, and what a run shows\<close>

text \<open>The arguments of one call of \<open>ensure_page\<close> other than the key.\<close>

record ensure_args =
  a_title :: ustr
  a_parent_id :: ustr
  a_storage :: ustr
  a_extra_labels :: "ustr list"
  a_page_labels :: "ustr list option"
  a_collision_prefix :: "ustr option"

text \<open>
  \<open>ensure_page\<close> called for one key with each of the argument records in turn,
  as the passes of \<open>publish_all\<close> call it again and again for the entries; an
  exception ends the run.
\<close>

fun republish :: "pylib \<Rightarrow> 'r publisher \<Rightarrow> ustr \<Rightarrow> ensure_args list \<Rightarrow> (ustr list, 'r world) comp" where
  "republish L pub k [] w = (Inr [], w)"
| "republish L pub k (a # as) w =
     (case ensure_page L pub k (a_title a) (a_parent_id a) (a_storage a) (a_extra_labels a)
             (a_page_labels a) (a_collision_prefix a) w of
        (Inl e, w') \<Rightarrow> (Inl e, w')
      | (Inr pid, w') \<Rightarrow>
          (case republish L pub k as w' of
             (Inl e, w'') \<Rightarrow> (Inl e, w'')
           | (Inr pids, w'') \<Rightarrow> (Inr (pid # pids), w'')))"

text \<open>
  The page a call works on, if it works on one; the calls that created a page (a
  \<open>create_page\<close> that returned); their number; and the calls made between two
  states.
\<close>

fun call_page :: "call \<Rightarrow> ustr option" where
  "call_page (CreatePage sp parent_id title storage) = None"
| "call_page (UpdatePage page_id sp parent_id title storage) = Some page_id"
| "call_page (AddLabels page_id labels) = Some page_id"
| "call_page (PutProperty page_id k v) = Some page_id"
| "call_page (DeleteLabel page_id label) = Some page_id"
| "call_page (FindPageByTitle sp title) = None"

definition on_page :: "ustr \<Rightarrow> call \<times> outcome \<Rightarrow> bool" where
  "on_page pid ev = (call_page (fst ev) = Some pid)"

fun page_created :: "call \<times> outcome \<Rightarrow> bool" where
  "page_created (CreatePage sp parent_id title storage, ReturnedId r) = True"
| "page_created ev = False"

definition pages_created :: "'r world \<Rightarrow> nat" where
  "pages_created w = length (filter page_created (calls w))"

definition new_calls :: "'r world \<Rightarrow> 'r world \<Rightarrow> (call \<times> outcome) list" where
  "new_calls w w' = drop (length (calls w)) (calls w')"

text \<open>
  \<open>ext Q w w'\<close>: from \<open>w\<close> to \<open>w'\<close> the three indexes are unchanged and the calls
  made all satisfy \<open>Q\<close>.
\<close>

definition ext :: "(call \<times> outcome \<Rightarrow> bool) \<Rightarrow> 'r world \<Rightarrow> 'r world \<Rightarrow> bool" where
  "ext Q w w' \<longleftrightarrow>
     key_to_page w' = key_to_page w \<and> label_to_page w' = label_to_page w
     \<and> path_to_page w' = path_to_page w
     \<and> (\<exists>evs. calls w' = calls w @ evs \<and> (\<forall>ev \<in> set evs. Q ev))"

text \<open>An exception that ends a run was raised by one of the calls of the run.\<close>

definition raised_by_call :: "'r world \<Rightarrow> 'r world \<Rightarrow> exn + 'a \<Rightarrow> bool" where
  "raised_by_call w w' res = (\<forall>e. res = Inl e \<longrightarrow> (\<exists>c. (c, Raised e) \<in> set (new_calls w w')))"

section \<open>Concrete instances for the examples\<close>

text \<open>
  The stub client of the tests (\<open>FakeConfluence\<close> in
  tests/test_docs_publisher_ensure_page.py): it records the calls and fails on the
  titles it was told to.
\<close>

record fake =
  created :: "(ustr \<times> ustr \<times> ustr \<times> ustr) list"
  updated :: "(ustr \<times> ustr \<times> ustr \<times> ustr \<times> ustr) list"
  labeled :: "(ustr \<times> ustr list) list"
  props :: "(ustr \<times> ustr \<times> payload) list"
  deleted_labels :: "(ustr \<times> ustr) list"
  create_fail_titles :: "ustr list"
  update_fail_titles :: "ustr list"
  find_by_title :: "ustr \<rightharpoonup> page_json"

definition title_exists_error :: exn where
  "title_exists_error = RuntimeError (u ''A page with this title already exists'')"

definition FakeConfluence :: "fake Confluence" where
  "FakeConfluence =
     \<lparr>create_page = (\<lambda>sp parent_id title storage f.
        if title \<in> set (create_fail_titles f) then (Inl title_exists_error, f)
        else (Inr (Some (u ''new:'' @ str_nat (length (created f) + 1))),
              f\<lparr>created := created f @ [(sp, parent_id, title, storage)]\<rparr>)),
      update_page = (\<lambda>page_id sp parent_id title storage f.
        if title \<in> set (update_fail_titles f) then (Inl title_exists_error, f)
        else (Inr (), f\<lparr>updated := updated f @ [(page_id, sp, parent_id, title, storage)]\<rparr>)),
      add_labels = (\<lambda>page_id labels f. (Inr (), f\<lparr>labeled := labeled f @ [(page_id, labels)]\<rparr>)),
      put_property = (\<lambda>page_id k v f. (Inr (), f\<lparr>props := props f @ [(page_id, k, v)]\<rparr>)),
      delete_label = (\<lambda>page_id label f.
        (Inr (), f\<lparr>deleted_labels := deleted_labels f @ [(page_id, label)]\<rparr>)),
      find_page_by_title = (\<lambda>sp title f. (Inr (find_by_title f title), f))\<rparr>"

definition fake_init :: fake where
  "fake_init =
     \<lparr>created = [], updated = [], labeled = [], props = [], deleted_labels = [],
      create_fail_titles = [], update_fail_titles = [], find_by_title = Map.empty\<rparr>"

text \<open>The configuration and the publisher of the tests (\<open>_mk_cfg\<close>).\<close>

definition test_cfg :: Cfg where
  "test_cfg =
     \<lparr>base_url = u ''https://conf.company.ru/wiki'', space = u ''DOC'', docs_root_id = u ''100'',
      options = [''adopt_existing_by_title_under_root'' \<mapsto> True]\<rparr>"

definition test_pub :: "fake publisher" where
  "test_pub = \<lparr>cfg = test_cfg, conf = FakeConfluence, managed_label = u ''managed-docs''\<rparr>"

definition world_init :: "fake world" where
  "world_init =
     \<lparr>key_to_page = Map.empty, label_to_page = Map.empty, path_to_page = Map.empty,
      remote = fake_init, calls = []\<rparr>"

text \<open>
  The library functions on the inputs of the examples, as tables of the values
  Python computes there: the SHA-1 digests of three keys, the parses of four
  addresses, and the paths of one link. \<open>ascii_lower\<close> is \<open>str.lower\<close> on ASCII
  text.
\<close>

definition ascii_lower :: "ustr \<Rightarrow> ustr" where
  "ascii_lower s = map (\<lambda>c. if 65 \<le> c \<and> c \<le> 90 then c + 32 else c) s"

definition sha1_examples :: "ustr \<Rightarrow> ustr" where
  "sha1_examples s =
     (if s = u ''file:docs/a.md'' then u ''b8ff4d9be1d48165a8bcb501b6b6a5a63f9bd1df''
      else if s = u ''file:docs/a/old.md'' then u ''38d148a61cb9d70cb10d6604f4c557a8535b6c37''
      else if s = u ''file:docs/a/new.md'' then u ''f9be94ca886c008a3912a90bf2e94b4441a8554e''
      else [])"

definition urlparse_examples :: "ustr \<Rightarrow> exn + url" where
  "urlparse_examples s =
     (if s = u ''https://conf.company.ru/wiki''
      then Inr \<lparr>url_scheme = u ''https'', url_netloc = u ''conf.company.ru'', url_path = u ''/wiki'',
                url_fragment = []\<rparr>
      else if s = u ''http://host.docker.internal:8090/wiki''
      then Inr \<lparr>url_scheme = u ''http'', url_netloc = u ''host.docker.internal:8090'',
                url_path = u ''/wiki'', url_fragment = []\<rparr>
      else if s = u ''https://conf.company.ru/wiki/rest/api''
      then Inr \<lparr>url_scheme = u ''https'', url_netloc = u ''conf.company.ru'',
                url_path = u ''/wiki/rest/api'', url_fragment = []\<rparr>
      else if s = u ''./b.md#sec''
      then Inr \<lparr>url_scheme = [], url_netloc = [], url_path = u ''./b.md'', url_fragment = u ''sec''\<rparr>
      else Inl (OtherError (u ''ValueError'')))"

definition test_lib :: pylib where
  "test_lib =
     \<lparr>sha1_hex = sha1_examples, str_lower = ascii_lower, urlparse = urlparse_examples,
      unquote = (\<lambda>s. s), normpath = (\<lambda>s. s),
      parent_join = (\<lambda>cur p. if cur = u ''docs/a/c.md'' \<and> p = u ''./b.md'' then u ''docs/a/b.md'' else [])\<rparr>"

text \<open>
  \<open>yaml.safe_load\<close> on two blocks: \<open>title: Hello\<close> parses to a mapping, and the
  unclosed flow sequence \<open>a: [\<close> raises \<open>yaml.parser.ParserError\<close>.
\<close>

definition yaml_examples :: "ustr \<Rightarrow> exn + yaml" where
  "yaml_examples raw =
     (if raw = u ''title: Hello'' then Inr (YMap [(YStr (u ''title''), YStr (u ''Hello''))])
      else if raw = u ''a: ['' then Inl (OtherError (u ''yaml.parser.ParserError''))
      else Inr YNone)"

text \<open>The converter options of the heading test of tests/test_converter.py.\<close>

definition numbering_cfg :: conv_cfg where
  "numbering_cfg =
     \<lparr>strip_title_h1 = True, promote_headings = True, strip_heading_numbers = True,
      heading_numbering_in_text = True, heading_numbering_max_level = 3, link_resolver = None\<rparr>"

text \<open>The resolver of the link test of tests/test_converter.py.\<close>

definition test_resolver :: "ustr \<Rightarrow> ustr option \<Rightarrow> exn + ustr option" where
  "test_resolver href current_path =
     (if href = u ''other.md'' then Inr (Some (u ''/pages/viewpage.action?pageId=123''))
      else Inr None)"

text \<open>
  The call of the tests of \<open>ensure_page\<close>: one key, one title, one parent, one
  body; and the states it is run from: the key already in the primary index, the
  key known only by its legacy label, a page of that title under the root on the
  remote side, and nothing known at all (\<open>world_init\<close>).
\<close>

definition test_key :: ustr where
  "test_key = u ''file:docs/a.md''"

definition test_args :: ensure_args where
  "test_args = \<lparr>a_title = u ''Hello'', a_parent_id = u ''100'', a_storage = u ''<p>x</p>'',
     a_extra_labels = [u ''md''], a_page_labels = None, a_collision_prefix = Some (u ''DOCS'')\<rparr>"

definition ensure_test :: "fake world \<Rightarrow> (exn + ustr) \<times> fake world" where
  "ensure_test w = ensure_page test_lib test_pub test_key (u ''Hello'') (u ''100'') (u ''<p>x</p>'')
                     [u ''md''] None (Some (u ''DOCS'')) w"

definition world_claimed :: "fake world" where
  "world_claimed = world_init\<lparr>key_to_page := [test_key \<mapsto> u ''777'']\<rparr>"

definition world_legacy :: "fake world" where
  "world_legacy = world_init\<lparr>label_to_page := [u ''src-b8ff4d9be1d4'' \<mapsto> u ''555'']\<rparr>"

definition hello_page :: page_json where
  "hello_page = \<lparr>pj_id = u ''900'', pj_ancestors = [u ''100'']\<rparr>"

definition world_adoptable :: "fake world" where
  "world_adoptable = world_init\<lparr>remote := fake_init\<lparr>find_by_title := [u ''Hello'' \<mapsto> hello_page]\<rparr>\<rparr>"

definition republish_test :: "(exn + ustr list) \<times> fake world" where
  "republish_test = republish test_lib test_pub test_key [test_args, test_args, test_args] world_init"


text \<open>
  A rename of \<open>docs/a/old.md\<close> to \<open>docs/a/new.md\<close>, the old key and the old
  path in the indexes; a converter that returns a fixed body and no front matter.
\<close>

definition world_renamed :: "fake world" where
  "world_renamed = world_init\<lparr>key_to_page := [u ''file:docs/a/old.md'' \<mapsto> u ''777''],
                               path_to_page := [u ''docs/a/old.md'' \<mapsto> u ''777'']\<rparr>"

definition test_convert :: "ustr \<Rightarrow> ustr \<Rightarrow> exn + ConversionResult" where
  "test_convert md_text current_path = Inr \<lparr>cr_storage = u ''<p>x</p>'', cr_front_matter = YNone\<rparr>"

definition publish_test :: "(exn + ustr) \<times> fake world" where
  "publish_test = publish_entry test_lib test_pub test_convert (\<lambda>fm. [])
                    (renamed_entry (u ''docs/a/old.md'') (u ''docs/a/new.md'') (u ''x'') (u ''Hello'')
                       (u ''100'') (u ''DOCS'')) world_renamed"


section \<open>Facts about strings and the matcher\<close>

lemmas str_defs = u_def strip_def lstrip_def rstrip_def py_isspace_def endswith_def

lemmas re_defs = re_match_def seqs_def lits_def group_def

lemma startswith_iff: "startswith s p \<longleftrightarrow> (\<exists>r. s = p @ r)"
  by (induction s p rule: startswith.induct) auto

lemma endswith_iff: "endswith s p \<longleftrightarrow> (\<exists>r. s = r @ p)"
proof
  assume "endswith s p"
  then obtain r where "rev s = rev p @ r"
    by (auto simp: endswith_def startswith_iff)
  then have "s = rev r @ p"
    by (metis rev_append rev_rev_ident)
  then show "\<exists>r. s = r @ p" by blast
next
  assume "\<exists>r. s = r @ p"
  then show "endswith s p"
    by (auto simp: endswith_def startswith_iff)
qed

lemma strip_Nil: "strip [] = []"
  by (simp add: strip_def lstrip_def rstrip_def)

lemma uniq_from_distinct:
  "distinct (uniq_from seen ts) \<and> set (uniq_from seen ts) = set ts - set seen"
  by (induction seen ts rule: uniq_from.induct) auto

text \<open>A match only adds groups to those captured before it.\<close>

lemma run_caps_grow:
  "st' \<in> set (run n r st) \<Longrightarrow> \<exists>ds. fst st' = fst st @ ds"
proof (induction n r st arbitrary: st' rule: run.induct)
  case (1 n c cs s)
  then show ?case by (auto split: list.splits if_splits)
next
  case (2 n p cs s)
  then show ?case by (auto split: list.splits if_splits)
next
  case (3 n a b cs s)
  from "3.prems" obtain m where m: "m \<in> set (run n a (cs, s))" and s': "st' \<in> set (run n b m)"
    by auto
  from "3.IH"(1)[OF m] obtain d1 where d1: "fst m = cs @ d1" by auto
  from "3.IH"(2)[OF m s'] obtain d2 where "fst st' = fst m @ d2" by auto
  with d1 show ?case by auto
next
  case (4 n a b cs s)
  then show ?case by (cases st') auto
next
  case (5 n greedy mn mx r cs s)
  from "5.prems" have "st' = (cs, s) \<or>
     (mx \<noteq> Some 0 \<and> (\<exists>m \<in> set (run n r (cs, s)). length (snd m) < length s \<and>
        st' \<in> set (run n (Rep greedy (mn - 1) (map_option (\<lambda>m. m - 1) mx) r) m)))"
    by (auto simp: Let_def split: if_splits)
  then show ?case
  proof
    assume "st' = (cs, s)"
    then show ?thesis by simp
  next
    assume "mx \<noteq> Some 0 \<and> (\<exists>m \<in> set (run n r (cs, s)). length (snd m) < length s \<and>
        st' \<in> set (run n (Rep greedy (mn - 1) (map_option (\<lambda>m. m - 1) mx) r) m))"
    then obtain m where mx: "mx \<noteq> Some 0" and m: "m \<in> set (run n r (cs, s))"
      and lt: "length (snd m) < length s"
      and s': "st' \<in> set (run n (Rep greedy (mn - 1) (map_option (\<lambda>m. m - 1) mx) r) m)"
      by auto
    from "5.IH"(1)[OF mx m] obtain d1 where d1: "fst m = cs @ d1" by auto
    from "5.IH"(2)[OF mx m lt s'] obtain d2 where "fst st' = fst m @ d2" by auto
    with d1 show ?thesis by auto
  qed
next
  case (6 n r cs s)
  then show ?case by (cases st') fastforce
next
  case (7 n cs s)
  then show ?case by (auto split: if_splits)
next
  case (8 n cs s)
  then show ?case by (auto split: if_splits)
next
  case (9 n cs s)
  then show ?case by auto
qed

text \<open>A bounded repetition of one character reads between \<open>mn\<close> and \<open>mx\<close> copies of it.\<close>

lemma run_rep_lit:
  "st' \<in> set (run n (Rep g mn (Some mx) (Lit c)) (cs, s)) \<Longrightarrow>
     fst st' = cs \<and> (\<exists>k. mn \<le> k \<and> k \<le> mx \<and> s = replicate k c @ snd st')"
proof (induction mx arbitrary: mn s)
  case 0
  then show ?case by (auto simp: Let_def split: if_splits)
next
  case (Suc mx)
  from Suc.prems have "(mn = 0 \<and> st' = (cs, s)) \<or>
     (\<exists>xs. s = c # xs \<and> st' \<in> set (run n (Rep g (mn - 1) (Some mx) (Lit c)) (cs, xs)))"
    by (auto simp: Let_def split: if_splits list.splits)
  then show ?case
  proof
    assume "mn = 0 \<and> st' = (cs, s)"
    then show ?thesis by (auto intro: exI[of _ 0])
  next
    assume "\<exists>xs. s = c # xs \<and> st' \<in> set (run n (Rep g (mn - 1) (Some mx) (Lit c)) (cs, xs))"
    then obtain xs where s: "s = c # xs"
      and r: "st' \<in> set (run n (Rep g (mn - 1) (Some mx) (Lit c)) (cs, xs))"
      by auto
    from Suc.IH[OF r] obtain k where
      "fst st' = cs" "mn - 1 \<le> k" "k \<le> mx" "xs = replicate k c @ snd st'"
      by auto
    with s show ?thesis by (auto intro!: exI[of _ "Suc k"])
  qed
qed

text \<open>The first group of a heading match is one to six hash signs.\<close>

lemma heading_level:
  assumes "re_match HEADING_RE core = Some (gs, rest)"
  shows "1 \<le> length (group gs 1) \<and> length (group gs 1) \<le> 6"
proof -
  define R where "R = seqs [rplus ws, Grp (Rep False 1 None dot), rstar ws, Eos]"
  define H where "H = Rep True 1 (Some 6) (Lit 35)"
  have re: "HEADING_RE = Seq Bos (Seq (Grp H) R)"
    by (simp add: HEADING_RE_def seqs_def R_def H_def)
  from assms have "(gs, rest) \<in> set (run (length core) HEADING_RE ([], core))"
    by (auto simp: re_match_def split: list.splits)
  then have "(gs, rest) \<in> set (run (length core) (Seq (Grp H) R) ([], core))"
    by (simp add: re)
  then obtain m where m: "m \<in> set (run (length core) (Grp H) ([], core))"
    and g: "(gs, rest) \<in> set (run (length core) R m)"
    by auto
  from m obtain h where h: "h \<in> set (run (length core) H ([], core))"
    and mh: "m = (fst h @ [take (length core - length (snd h)) core], snd h)"
    by auto
  from run_rep_lit[OF h[unfolded H_def]] obtain k where
    k: "fst h = []" "1 \<le> k" "k \<le> 6" "core = replicate k 35 @ snd h"
    by auto
  have "length core - length (snd h) = k"
    using k(4) by (metis add_diff_cancel_right' length_append length_replicate)
  with k mh have fm: "fst m = [replicate k 35]"
    by (metis append_Nil append_eq_conv_conj fst_conv length_replicate)
  from run_caps_grow[OF g] fm obtain ds where "gs = [replicate k 35] @ ds"
    by auto
  then have "group gs 1 = replicate k 35"
    by (simp add: group_def)
  with k show ?thesis by simp
qed

lemma no_front_matter_without_dashes:
  "\<not> startswith md (u ''---'') \<Longrightarrow> re_match FRONT_MATTER_RE md = None"
  apply (simp add: FRONT_MATTER_RE_def re_defs u_def)
  apply (cases md; simp)
  subgoal for a as
    apply (cases as; simp)
    subgoal for b bs
      by (cases bs; simp)
    done
  done

section \<open>Front matter\<close>

text \<open>
  C2, as the code has it. \<open>strip_front_matter\<close> returns the empty mapping and the
  text unchanged when the text does not begin with a delimited block (in
  particular when it does not begin with three dashes). When it does, the block
  is handed to the YAML parser with no handler around the call: a value the
  parser returns is returned (the empty mapping in place of a false value) with
  the text after the block, and an exception the parser raises is raised by
  \<open>strip_front_matter\<close>. So it raises exactly on a delimited block that the
  parser rejects.
\<close>

theorem strip_front_matter_cases:
  "(re_match FRONT_MATTER_RE md = None \<longrightarrow> strip_front_matter safe_load md = Inr (YMap [], md))
   \<and> (\<not> startswith md (u ''---'') \<longrightarrow> strip_front_matter safe_load md = Inr (YMap [], md))
   \<and> (\<forall>gs body. re_match FRONT_MATTER_RE md = Some (gs, body) \<longrightarrow>
         (\<forall>v. safe_load (group gs 1) = Inr v \<longrightarrow>
              strip_front_matter safe_load md = Inr (if truthy v then v else YMap [], body))
       \<and> (\<forall>e. safe_load (group gs 1) = Inl e \<longrightarrow> strip_front_matter safe_load md = Inl e))
   \<and> ((\<exists>e. strip_front_matter safe_load md = Inl e) \<longleftrightarrow>
        (\<exists>gs body e. re_match FRONT_MATTER_RE md = Some (gs, body) \<and> safe_load (group gs 1) = Inl e))"
proof (intro conjI)
  show "re_match FRONT_MATTER_RE md = None \<longrightarrow> strip_front_matter safe_load md = Inr (YMap [], md)"
    by (simp add: strip_front_matter_def)
  show "\<not> startswith md (u ''---'') \<longrightarrow> strip_front_matter safe_load md = Inr (YMap [], md)"
    using no_front_matter_without_dashes[of md] by (simp add: strip_front_matter_def)
  show "\<forall>gs body. re_match FRONT_MATTER_RE md = Some (gs, body) \<longrightarrow>
         (\<forall>v. safe_load (group gs 1) = Inr v \<longrightarrow>
              strip_front_matter safe_load md = Inr (if truthy v then v else YMap [], body))
       \<and> (\<forall>e. safe_load (group gs 1) = Inl e \<longrightarrow> strip_front_matter safe_load md = Inl e)"
    by (simp add: strip_front_matter_def)
  show "(\<exists>e. strip_front_matter safe_load md = Inl e) \<longleftrightarrow>
        (\<exists>gs body e. re_match FRONT_MATTER_RE md = Some (gs, body) \<and> safe_load (group gs 1) = Inl e)"
    by (auto simp: strip_front_matter_def split: option.splits sum.splits)
qed

text \<open>
  The theorem at three texts: one with no block, one whose block parses, and one
  whose block the parser rejects.
\<close>

theorem strip_front_matter_cases_witness:
  "re_match FRONT_MATTER_RE (u ''# T'' @ [10]) = None
   \<and> strip_front_matter yaml_examples (u ''# T'' @ [10]) = Inr (YMap [], u ''# T'' @ [10])
   \<and> re_match FRONT_MATTER_RE (u ''---'' @ [10] @ u ''title: Hello'' @ [10] @ u ''---'' @ [10] @ u ''x'')
       = Some ([u ''title: Hello''], u ''x'')
   \<and> yaml_examples (group [u ''title: Hello''] 1) = Inr (YMap [(YStr (u ''title''), YStr (u ''Hello''))])
   \<and> strip_front_matter yaml_examples
        (u ''---'' @ [10] @ u ''title: Hello'' @ [10] @ u ''---'' @ [10] @ u ''x'')
       = Inr (YMap [(YStr (u ''title''), YStr (u ''Hello''))], u ''x'')"
proof -
  have m1: "re_match FRONT_MATTER_RE (u ''# T'' @ [10]) = None"
    by (simp add: FRONT_MATTER_RE_def str_defs re_defs)
  have m2: "re_match FRONT_MATTER_RE
              (u ''---'' @ [10] @ u ''title: Hello'' @ [10] @ u ''---'' @ [10] @ u ''x'')
            = Some ([u ''title: Hello''], u ''x'')"
    by (simp add: FRONT_MATTER_RE_def str_defs re_defs)
  have p2: "yaml_examples (group [u ''title: Hello''] 1)
            = Inr (YMap [(YStr (u ''title''), YStr (u ''Hello''))])"
    by (simp add: yaml_examples_def group_def)
  from strip_front_matter_cases[of "u ''# T'' @ [10]" yaml_examples] m1
  have r1: "strip_front_matter yaml_examples (u ''# T'' @ [10]) = Inr (YMap [], u ''# T'' @ [10])"
    by blast
  from strip_front_matter_cases[of
      "u ''---'' @ [10] @ u ''title: Hello'' @ [10] @ u ''---'' @ [10] @ u ''x''" yaml_examples] m2 p2
  have r2: "strip_front_matter yaml_examples
              (u ''---'' @ [10] @ u ''title: Hello'' @ [10] @ u ''---'' @ [10] @ u ''x'')
            = Inr (YMap [(YStr (u ''title''), YStr (u ''Hello''))], u ''x'')"
    by simp
  from m1 r1 m2 p2 r2 show ?thesis by blast
qed

text \<open>
  The claim C2 as stated fails: on a delimited block holding the unclosed flow
  sequence \<open>a: [\<close>, which the YAML parser rejects, \<open>strip_front_matter\<close> raises the
  parser's exception.
\<close>

theorem strip_front_matter_raises:
  "strip_front_matter yaml_examples (u ''---'' @ [10] @ u ''a: ['' @ [10] @ u ''---'' @ [10] @ u ''x'')
     = Inl (OtherError (u ''yaml.parser.ParserError''))"
  by (simp add: strip_front_matter_def FRONT_MATTER_RE_def yaml_examples_def str_defs re_defs)

section \<open>Title candidates\<close>

lemma neq_hashed: "b \<noteq> b @ u '' ['' @ h @ u '']''"
  by (simp add: u_def)

lemma neq_prefixed: "b \<noteq> p @ [32, 183, 32] @ (b :: ustr)"
proof
  assume "b = p @ [32, 183, 32] @ b"
  then have "length b = length (p @ [32, 183, 32] @ b)" by simp
  then show False by simp
qed

lemma title_candidates_explicit:
  "title_candidates L k cp title =
     (let b = strip title;
          hashed = b @ u '' ['' @ take 6 (sha1_hex L k) @ u '']''
      in case cp of
           None \<Rightarrow> (if b = [] then [] else [b]) @ [hashed]
         | Some p \<Rightarrow>
             (let prefixed = strip p @ [32, 183, 32] @ b
              in if strip p \<noteq> [] \<and> \<not> startswith b (strip p)
                 then (if b = [] then [] else [b]) @ [prefixed]
                      @ (if prefixed = hashed then [] else [hashed])
                 else (if b = [] then [] else [b]) @ [hashed]))"
  unfolding title_candidates_def Let_def
  using neq_hashed neq_prefixed strip_Nil
  by (cases cp) auto

lemma title_candidates_nonempty: "title_candidates L k cp title \<noteq> []"
  by (cases cp) (auto simp: title_candidates_explicit Let_def)

text \<open>
  C5, as the code has it. With \<open>b\<close> the title stripped of surrounding white
  space and \<open>p\<close> the prefix stripped likewise, the candidates are, in this order:
  \<open>b\<close>, unless it is empty; then \<open>p \<cdot> b\<close> (the separator is a space, a
  middle dot and a space), if a prefix was given, \<open>p\<close> is not empty and \<open>b\<close> does
  not start with \<open>p\<close>; then \<open>b [h]\<close> with \<open>h\<close> the first six characters of the
  hex digest of the key, unless it repeats the prefixed title. The sequence has
  no duplicates, is never empty, and always holds the hash-suffixed title.
\<close>

theorem title_candidates_sequence:
  "title_candidates L k cp title =
     (let b = strip title;
          hashed = b @ u '' ['' @ take 6 (sha1_hex L k) @ u '']''
      in case cp of
           None \<Rightarrow> (if b = [] then [] else [b]) @ [hashed]
         | Some p \<Rightarrow>
             (let prefixed = strip p @ [32, 183, 32] @ b
              in if strip p \<noteq> [] \<and> \<not> startswith b (strip p)
                 then (if b = [] then [] else [b]) @ [prefixed]
                      @ (if prefixed = hashed then [] else [hashed])
                 else (if b = [] then [] else [b]) @ [hashed]))
   \<and> distinct (title_candidates L k cp title)
   \<and> title_candidates L k cp title \<noteq> []
   \<and> strip title @ u '' ['' @ take 6 (sha1_hex L k) @ u '']'' \<in> set (title_candidates L k cp title)"
proof (intro conjI)
  show "distinct (title_candidates L k cp title)"
    by (simp add: title_candidates_def Let_def uniq_from_distinct)
  show "title_candidates L k cp title \<noteq> []"
    by (rule title_candidates_nonempty)
  show "strip title @ u '' ['' @ take 6 (sha1_hex L k) @ u '']'' \<in> set (title_candidates L k cp title)"
    by (simp add: title_candidates_def Let_def uniq_from_distinct)
qed (rule title_candidates_explicit)

text \<open>
  The theorem at the key, title and prefix of the first test of
  tests/test_docs_publisher_ensure_page.py.
\<close>

theorem title_candidates_sequence_witness:
  "title_candidates test_lib (u ''file:docs/a.md'') (Some (u ''DOCS'')) (u ''Hello'')
     = [u ''Hello'', u ''DOCS'' @ [32, 183, 32] @ u ''Hello'', u ''Hello [b8ff4d]'']
   \<and> distinct (title_candidates test_lib (u ''file:docs/a.md'') (Some (u ''DOCS'')) (u ''Hello''))"
  using title_candidates_sequence[of test_lib "u ''file:docs/a.md''" "Some (u ''DOCS'')" "u ''Hello''"]
  by (simp add: str_defs test_lib_def sha1_examples_def Let_def)

text \<open>
  The claim C5 as stated fails on an empty title: the bare title is not tried,
  the only candidate is the hash-suffixed one.
\<close>

theorem title_candidates_empty_title:
  "title_candidates test_lib (u ''file:docs/a.md'') None [] = [u '' [b8ff4d]'']
   \<and> [] \<notin> set (title_candidates test_lib (u ''file:docs/a.md'') None [])"
  by (simp add: title_candidates_def test_lib_def sha1_examples_def str_defs)

section \<open>Heading normalisation\<close>

lemmas norm_defs = normalize_markdown_def splitlines_def norm_init_def norm_line_def split_nl_def
  FENCE_RE_def HEADING_RE_def HEADING_NUM_PREFIX_RE_def strip_heading_number_prefix_def
  number_heading_def promoted_level_def py_islinebreak_def Let_def

lemma max_lvl_ge1: "1 \<le> max_lvl cf"
  by (simp add: max_lvl_def)

lemma normalize_second:
  assumes digits: "\<And>c. c < 128 \<Longrightarrow> isdecimal c = ascii_digit c"
      and flags: "promote_headings cf" "strip_heading_numbers cf" "heading_numbering_in_text cf"
  shows "normalize_markdown isdecimal cf (u ''## 1.1 Second'' @ [10]) = u ''# 1. Second'' @ [10]"
  using flags max_lvl_ge1[of cf]
  by (simp add: norm_defs digits ascii_digit_def str_defs re_defs)

lemma normalize_first_second:
  assumes digits: "\<And>c. c < 128 \<Longrightarrow> isdecimal c = ascii_digit c"
      and flags: "promote_headings cf" "strip_heading_numbers cf" "heading_numbering_in_text cf"
      and lvl: "2 \<le> max_lvl cf"
  shows "normalize_markdown isdecimal cf (u ''## 1. First'' @ [10] @ u ''### 1.1 Second'' @ [10])
        = u ''# 1. First'' @ [10] @ u ''## 1.1. Second'' @ [10]"
  using flags max_lvl_ge1[of cf] lvl
  by (simp add: norm_defs digits ascii_digit_def str_defs re_defs)

lemma normalize_again:
  assumes digits: "\<And>c. c < 128 \<Longrightarrow> isdecimal c = ascii_digit c"
      and flags: "promote_headings cf" "strip_heading_numbers cf" "heading_numbering_in_text cf"
  shows "normalize_markdown isdecimal cf (u ''# 1. Second'' @ [10])
        = (if strip_title_h1 cf then [] else u ''# 1. Second'' @ [10])"
  using flags max_lvl_ge1[of cf]
  by (simp add: norm_defs digits ascii_digit_def str_defs re_defs)

text \<open>
  C6, as the code has it. With numbering strip, promotion and in-text numbering
  on (and any table of decimal digits that is the ASCII one below 128):
  the document \<open>## 1.1 Second\<close> becomes \<open># 1. Second\<close>: the manual prefix is
  stripped, the heading is promoted to level 1 and gets the level-1 prefix
  \<open>1.\<close>; the text \<open>1.1. Second\<close> is what \<open>### 1.1 Second\<close> after \<open>## 1. First\<close>
  becomes, at level 2 (when levels up to 2 are numbered); and a second run over
  \<open># 1. Second\<close> returns it unchanged when title extraction is off (with title
  extraction on, the level-1 heading is removed as the page title), so no prefix
  is doubled.
\<close>

theorem heading_normalization_example:
  assumes "\<And>c. c < 128 \<Longrightarrow> isdecimal c = ascii_digit c"
      and "promote_headings cf" "strip_heading_numbers cf" "heading_numbering_in_text cf"
  shows "normalize_markdown isdecimal cf (u ''## 1.1 Second'' @ [10]) = u ''# 1. Second'' @ [10]
       \<and> (2 \<le> max_lvl cf \<longrightarrow>
            normalize_markdown isdecimal cf (u ''## 1. First'' @ [10] @ u ''### 1.1 Second'' @ [10])
            = u ''# 1. First'' @ [10] @ u ''## 1.1. Second'' @ [10])
       \<and> normalize_markdown isdecimal cf
            (normalize_markdown isdecimal cf (u ''## 1.1 Second'' @ [10]))
          = (if strip_title_h1 cf then [] else u ''# 1. Second'' @ [10])"
  using normalize_second[OF assms] normalize_first_second[OF assms] normalize_again[OF assms]
  by simp

text \<open>The theorem with the ASCII digits and the options of the heading test.\<close>

theorem heading_normalization_example_witness:
  "promote_headings numbering_cfg \<and> strip_heading_numbers numbering_cfg
   \<and> heading_numbering_in_text numbering_cfg \<and> 2 \<le> max_lvl numbering_cfg
   \<and> strip_title_h1 numbering_cfg
   \<and> normalize_markdown ascii_digit numbering_cfg (u ''## 1.1 Second'' @ [10]) = u ''# 1. Second'' @ [10]
   \<and> normalize_markdown ascii_digit numbering_cfg
        (u ''## 1. First'' @ [10] @ u ''### 1.1 Second'' @ [10])
      = u ''# 1. First'' @ [10] @ u ''## 1.1. Second'' @ [10]
   \<and> normalize_markdown ascii_digit numbering_cfg
        (normalize_markdown ascii_digit numbering_cfg (u ''## 1.1 Second'' @ [10])) = []"
proof -
  have f: "promote_headings numbering_cfg" "strip_heading_numbers numbering_cfg"
    "heading_numbering_in_text numbering_cfg"
    and l: "2 \<le> max_lvl numbering_cfg" and t: "strip_title_h1 numbering_cfg"
    by (simp_all add: numbering_cfg_def max_lvl_def)
  note ex = heading_normalization_example[of ascii_digit numbering_cfg, OF refl f]
  from ex[THEN conjunct2, THEN conjunct2] t
  have "normalize_markdown ascii_digit numbering_cfg
        (normalize_markdown ascii_digit numbering_cfg (u ''## 1.1 Second'' @ [10])) = []"
    by (simp only: if_True)
  with ex l t f show ?thesis
    by blast
qed

text \<open>
  The claim C6 as stated fails: the heading \<open>## 1.1 Second\<close>, promoted to level
  1, gets the text \<open>1. Second\<close>, not \<open>1.1. Second\<close>.
\<close>

theorem heading_normalization_counterexample:
  "normalize_markdown ascii_digit numbering_cfg (u ''## 1.1 Second'' @ [10]) = u ''# 1. Second'' @ [10]
   \<and> normalize_markdown ascii_digit numbering_cfg (u ''## 1.1 Second'' @ [10])
       \<noteq> u ''# 1.1. Second'' @ [10]"
  by (simp add: norm_defs numbering_cfg_def max_lvl_def ascii_digit_def str_defs re_defs)

section \<open>Auto-numbering\<close>

lemma split_nl_join: "split_nl line = (core, nl) \<Longrightarrow> core @ nl = line"
  by (auto simp: split_nl_def endswith_iff split: if_splits)

lemma norm_line_fence:
  assumes "split_nl line = (core, nl)" "re_match FENCE_RE core \<noteq> None"
  shows "norm_line isdecimal cf st line = (st\<lparr>in_fence := \<not> in_fence st\<rparr>, Some line)"
  using assms split_nl_join[OF assms(1)] by (simp add: norm_line_def)

lemma norm_line_in_fence:
  assumes "split_nl line = (core, nl)" "re_match FENCE_RE core = None" "in_fence st"
  shows "norm_line isdecimal cf st line = (st, Some line)"
  using assms split_nl_join[OF assms(1)] by (simp add: norm_line_def)

lemma norm_line_no_heading:
  assumes "split_nl line = (core, nl)" "re_match FENCE_RE core = None" "\<not> in_fence st"
      and "re_match HEADING_RE core = None"
  shows "norm_line isdecimal cf st line = (st, Some line)"
  using assms split_nl_join[OF assms(1)] by (simp add: norm_line_def)

lemma norm_line_heading:
  assumes "split_nl line = (core, nl)" "re_match FENCE_RE core = None" "\<not> in_fence st"
      and "re_match HEADING_RE core = Some (gs, rest)"
  shows "norm_line isdecimal cf st line =
     (if length (group gs 1) = 1 \<and> strip_title_h1 cf \<and> \<not> removed_first_h1 st
      then (st\<lparr>removed_first_h1 := True\<rparr>, None)
      else if heading_numbering_in_text cf \<and> promoted_level cf (length (group gs 1)) \<le> 3
              \<and> int (promoted_level cf (length (group gs 1))) \<le> max_lvl cf
      then
        (case number_heading (promoted_level cf (length (group gs 1))) (n1 st, n2 st, n3 st) of
           ((a, b, d), prefix) \<Rightarrow>
             (st\<lparr>n1 := a, n2 := b, n3 := d\<rparr>,
              Some (replicate (promoted_level cf (length (group gs 1))) 35 @ [32]
                    @ (if startswith (strip_heading_number_prefix isdecimal cf (group gs 2)) prefix
                       then strip_heading_number_prefix isdecimal cf (group gs 2)
                       else prefix @ strip_heading_number_prefix isdecimal cf (group gs 2))
                    @ nl)))
      else (st, Some (replicate (promoted_level cf (length (group gs 1))) 35 @ [32]
                      @ strip_heading_number_prefix isdecimal cf (group gs 2) @ nl)))"
  using assms by (simp add: norm_line_def Let_def)

text \<open>
  When a turn of the loop changes a counter, the line is a heading outside a
  fence whose promoted level is 1, 2 or 3, and the counters and the line written
  are those of that level.
\<close>

lemma norm_line_counters:
  assumes nl: "split_nl line = (core, nl)"
      and res: "norm_line isdecimal cf st line = (st', out)"
      and ch: "counters st' \<noteq> counters st"
  shows "\<not> in_fence st \<and> re_match FENCE_RE core = None \<and> heading_numbering_in_text cf \<and>
         (\<exists>gs rest. re_match HEADING_RE core = Some (gs, rest) \<and>
            (let lvl = promoted_level cf (length (group gs 1));
                 ht = strip_heading_number_prefix isdecimal cf (group gs 2);
                 a = (if n1 st = 0 then 1 else n1 st);
                 b = (if n2 st = 0 then 1 else n2 st);
                 p1 = str_nat (n1 st + 1) @ u ''. '';
                 p2 = str_nat a @ u ''.'' @ str_nat (n2 st + 1) @ u ''. '';
                 p3 = str_nat a @ u ''.'' @ str_nat b @ u ''.'' @ str_nat (n3 st + 1) @ u ''. ''
             in 1 \<le> lvl \<and> lvl \<le> 3 \<and> int lvl \<le> max_lvl cf \<and>
                (lvl = 1 \<longrightarrow> counters st' = (n1 st + 1, 0, 0) \<and>
                   out = Some (u ''# '' @ (if startswith ht p1 then ht else p1 @ ht) @ nl)) \<and>
                (lvl = 2 \<longrightarrow> counters st' = (a, n2 st + 1, 0) \<and>
                   out = Some (u ''## '' @ (if startswith ht p2 then ht else p2 @ ht) @ nl)) \<and>
                (lvl = 3 \<longrightarrow> counters st' = (a, b, n3 st + 1) \<and>
                   out = Some (u ''### '' @ (if startswith ht p3 then ht else p3 @ ht) @ nl))))"
proof -
  have nf: "re_match FENCE_RE core = None"
  proof (rule ccontr)
    assume "re_match FENCE_RE core \<noteq> None"
    from norm_line_fence[OF nl this, of isdecimal cf st] res
    have "st' = st\<lparr>in_fence := \<not> in_fence st\<rparr>" by simp
    with ch show False by (simp add: counters_def)
  qed
  have ni: "\<not> in_fence st"
  proof
    assume "in_fence st"
    from norm_line_in_fence[OF nl nf this, of isdecimal cf] res have "st' = st" by simp
    with ch show False by simp
  qed
  have "re_match HEADING_RE core \<noteq> None"
  proof
    assume "re_match HEADING_RE core = None"
    from norm_line_no_heading[OF nl nf ni this, of isdecimal cf] res have "st' = st" by simp
    with ch show False by simp
  qed
  then obtain gs rest where m: "re_match HEADING_RE core = Some (gs, rest)" by auto
  define level where "level = length (group gs 1)"
  define lvl where "lvl = promoted_level cf level"
  define ht where "ht = strip_heading_number_prefix isdecimal cf (group gs 2)"
  have lv: "1 \<le> level" "level \<le> 6"
    using heading_level[OF m] by (auto simp: level_def)
  then have l1: "1 \<le> lvl"
    by (auto simp: lvl_def promoted_level_def)
  note eq = norm_line_heading[OF nl nf ni m, of isdecimal cf, folded level_def,
      folded lvl_def ht_def]
  have nt: "\<not> (level = 1 \<and> strip_title_h1 cf \<and> \<not> removed_first_h1 st)"
  proof
    assume "level = 1 \<and> strip_title_h1 cf \<and> \<not> removed_first_h1 st"
    with eq res have "st' = st\<lparr>removed_first_h1 := True\<rparr>" by simp
    with ch show False by (simp add: counters_def)
  qed
  have num: "heading_numbering_in_text cf \<and> lvl \<le> 3 \<and> int lvl \<le> max_lvl cf"
  proof (rule ccontr)
    assume "\<not> (heading_numbering_in_text cf \<and> lvl \<le> 3 \<and> int lvl \<le> max_lvl cf)"
    with eq res nt have "st' = st" by auto
    with ch show False by simp
  qed
  have r3: "replicate 3 (35::nat) = [35, 35, 35]" "replicate 2 (35::nat) = [35, 35]"
    by (simp_all add: numeral_3_eq_3 numeral_2_eq_2)
  from eq res nt num have final:
    "(st', out) = (case number_heading lvl (n1 st, n2 st, n3 st) of
                     ((a, b, d), prefix) \<Rightarrow>
                       (st\<lparr>n1 := a, n2 := b, n3 := d\<rparr>,
                        Some (replicate lvl 35 @ [32]
                              @ (if startswith ht prefix then ht else prefix @ ht) @ nl)))"
    by auto
  have c1: "lvl = 1 \<Longrightarrow> counters st' = (n1 st + 1, 0, 0) \<and>
       out = Some (u ''# '' @ (if startswith ht (str_nat (n1 st + 1) @ u ''. '') then ht
                               else (str_nat (n1 st + 1) @ u ''. '') @ ht) @ nl)"
    using final by (simp add: number_heading_def counters_def u_def)
  have c2: "lvl = 2 \<Longrightarrow> counters st' = ((if n1 st = 0 then 1 else n1 st), n2 st + 1, 0) \<and>
       out = Some (u ''## ''
                   @ (if startswith ht (str_nat (if n1 st = 0 then 1 else n1 st) @ u ''.''
                                        @ str_nat (n2 st + 1) @ u ''. '') then ht
                      else (str_nat (if n1 st = 0 then 1 else n1 st) @ u ''.''
                            @ str_nat (n2 st + 1) @ u ''. '') @ ht) @ nl)"
    using final r3 by (simp add: number_heading_def counters_def u_def Let_def)
  have c3: "lvl = 3 \<Longrightarrow>
       counters st' = ((if n1 st = 0 then 1 else n1 st), (if n2 st = 0 then 1 else n2 st), n3 st + 1) \<and>
       out = Some (u ''### ''
                   @ (if startswith ht (str_nat (if n1 st = 0 then 1 else n1 st) @ u ''.''
                                        @ str_nat (if n2 st = 0 then 1 else n2 st) @ u ''.''
                                        @ str_nat (n3 st + 1) @ u ''. '') then ht
                      else (str_nat (if n1 st = 0 then 1 else n1 st) @ u ''.''
                            @ str_nat (if n2 st = 0 then 1 else n2 st) @ u ''.''
                            @ str_nat (n3 st + 1) @ u ''. '') @ ht) @ nl)"
    using final r3 by (simp add: number_heading_def counters_def u_def Let_def)
  show ?thesis
    unfolding Let_def
    using nf ni m num l1 c1 c2 c3
    by (auto simp: level_def lvl_def ht_def simp del: str_nat.simps)
qed

text \<open>A heading that meets the conditions of the numbering branch is counted.\<close>

lemma norm_line_numbers:
  assumes nl: "split_nl line = (core, nl)"
      and nf: "re_match FENCE_RE core = None" and ni: "\<not> in_fence st"
      and m: "re_match HEADING_RE core = Some (gs, rest)"
      and nt: "\<not> (length (group gs 1) = 1 \<and> strip_title_h1 cf \<and> \<not> removed_first_h1 st)"
      and num: "heading_numbering_in_text cf" "promoted_level cf (length (group gs 1)) \<le> 3"
        "int (promoted_level cf (length (group gs 1))) \<le> max_lvl cf"
  shows "counters (fst (norm_line isdecimal cf st line)) \<noteq> counters st"
  using norm_line_heading[OF nl nf ni m, of isdecimal cf] nt num
  by (auto simp: number_heading_def counters_def Let_def)

lemma norm_lines_in_fence:
  assumes "in_fence st" "\<forall>l \<in> set ls. re_match FENCE_RE (fst (split_nl l)) = None"
  shows "norm_lines isdecimal cf st ls = ls"
  using assms
proof (induction ls)
  case Nil
  then show ?case by simp
next
  case (Cons l ls)
  obtain core nl where s: "split_nl l = (core, nl)"
    by (cases "split_nl l")
  with Cons.prems have "re_match FENCE_RE core = None" by auto
  from norm_line_in_fence[OF s this Cons.prems(1), of isdecimal cf] Cons show ?case
    by simp
qed

text \<open>
  C7. One turn of the loop of the normaliser, for any state, line and options:
  a fence line is written unchanged and toggles the fence state; inside a fence
  every other line is written unchanged and nothing else changes, so a heading
  there is neither treated as a heading nor counted; a counter changes only on
  a heading outside a fence whose promoted level \<open>lvl\<close> is 1, 2 or 3 (and at most
  the configured maximum), with in-text numbering on, and then level 1
  increments the first counter and resets the other two, level 2 increments the
  second and resets the third, level 3 increments the third, a shallower counter
  that is still 0 being set to 1, and the heading is written with the prefix of
  these counters; and every such heading (other than the first level-1 heading
  taken as the title) is counted. Over a whole run, while the state is inside a
  fence and no fence line comes, the lines are returned as they are. The loop
  \<open>norm_lines\<close> applies this turn to every line of every document.
\<close>

theorem auto_numbering_step:
  assumes "split_nl line = (core, nl)" and "norm_line isdecimal cf st line = (st', out)"
  shows "(re_match FENCE_RE core \<noteq> None \<longrightarrow>
            st' = st\<lparr>in_fence := \<not> in_fence st\<rparr> \<and> out = Some line)
       \<and> (re_match FENCE_RE core = None \<and> in_fence st \<longrightarrow> st' = st \<and> out = Some line)
       \<and> (counters st' \<noteq> counters st \<longrightarrow>
            \<not> in_fence st \<and> re_match FENCE_RE core = None \<and> heading_numbering_in_text cf \<and>
            (\<exists>gs rest. re_match HEADING_RE core = Some (gs, rest) \<and>
               (let lvl = promoted_level cf (length (group gs 1));
                    ht = strip_heading_number_prefix isdecimal cf (group gs 2);
                    a = (if n1 st = 0 then 1 else n1 st);
                    b = (if n2 st = 0 then 1 else n2 st);
                    p1 = str_nat (n1 st + 1) @ u ''. '';
                    p2 = str_nat a @ u ''.'' @ str_nat (n2 st + 1) @ u ''. '';
                    p3 = str_nat a @ u ''.'' @ str_nat b @ u ''.'' @ str_nat (n3 st + 1) @ u ''. ''
                in 1 \<le> lvl \<and> lvl \<le> 3 \<and> int lvl \<le> max_lvl cf \<and>
                   (lvl = 1 \<longrightarrow> counters st' = (n1 st + 1, 0, 0) \<and>
                      out = Some (u ''# '' @ (if startswith ht p1 then ht else p1 @ ht) @ nl)) \<and>
                   (lvl = 2 \<longrightarrow> counters st' = (a, n2 st + 1, 0) \<and>
                      out = Some (u ''## '' @ (if startswith ht p2 then ht else p2 @ ht) @ nl)) \<and>
                   (lvl = 3 \<longrightarrow> counters st' = (a, b, n3 st + 1) \<and>
                      out = Some (u ''### '' @ (if startswith ht p3 then ht else p3 @ ht) @ nl)))))
       \<and> (\<forall>gs rest. re_match FENCE_RE core = None \<and> \<not> in_fence st
              \<and> re_match HEADING_RE core = Some (gs, rest)
              \<and> \<not> (length (group gs 1) = 1 \<and> strip_title_h1 cf \<and> \<not> removed_first_h1 st)
              \<and> heading_numbering_in_text cf \<and> promoted_level cf (length (group gs 1)) \<le> 3
              \<and> int (promoted_level cf (length (group gs 1))) \<le> max_lvl cf
            \<longrightarrow> counters st' \<noteq> counters st)
       \<and> (\<forall>ls. in_fence st \<and> (\<forall>l \<in> set ls. re_match FENCE_RE (fst (split_nl l)) = None)
            \<longrightarrow> norm_lines isdecimal cf st ls = ls)"
proof (intro conjI)
  show "re_match FENCE_RE core \<noteq> None \<longrightarrow> st' = st\<lparr>in_fence := \<not> in_fence st\<rparr> \<and> out = Some line"
    using norm_line_fence[OF assms(1), of isdecimal cf st] assms(2) by auto
  show "re_match FENCE_RE core = None \<and> in_fence st \<longrightarrow> st' = st \<and> out = Some line"
    using norm_line_in_fence[OF assms(1), of st isdecimal cf] assms(2) by auto
  show "\<forall>gs rest. re_match FENCE_RE core = None \<and> \<not> in_fence st
              \<and> re_match HEADING_RE core = Some (gs, rest)
              \<and> \<not> (length (group gs 1) = 1 \<and> strip_title_h1 cf \<and> \<not> removed_first_h1 st)
              \<and> heading_numbering_in_text cf \<and> promoted_level cf (length (group gs 1)) \<le> 3
              \<and> int (promoted_level cf (length (group gs 1))) \<le> max_lvl cf
            \<longrightarrow> counters st' \<noteq> counters st"
    using norm_line_numbers[OF assms(1), of st _ _ cf isdecimal] assms(2)
    by (metis fst_conv)
  show "\<forall>ls. in_fence st \<and> (\<forall>l \<in> set ls. re_match FENCE_RE (fst (split_nl l)) = None)
            \<longrightarrow> norm_lines isdecimal cf st ls = ls"
    using norm_lines_in_fence by blast
qed (rule impI, rule norm_line_counters[OF assms])

text \<open>
  The theorem at a level-3 heading met first (promoted to level 2: both
  shallower counters are seeded), and at two heading lines inside a fence.
\<close>

theorem auto_numbering_step_witness:
  "split_nl (u ''### Deep'' @ [10]) = (u ''### Deep'', [10])
   \<and> norm_line ascii_digit numbering_cfg norm_init (u ''### Deep'' @ [10])
       = (norm_init\<lparr>n1 := 1, n2 := 1, n3 := 0\<rparr>, Some (u ''## 1.1. Deep'' @ [10]))
   \<and> counters (norm_init\<lparr>n1 := 1, n2 := 1, n3 := 0\<rparr>) \<noteq> counters norm_init
   \<and> \<not> in_fence norm_init
   \<and> re_match FENCE_RE (u ''### Deep'') = None
   \<and> re_match HEADING_RE (u ''### Deep'') = Some ([u ''###'', u ''Deep''], [])
   \<and> promoted_level numbering_cfg (length (group [u ''###'', u ''Deep''] 1)) = 2
   \<and> counters (norm_init\<lparr>n1 := 1, n2 := 1, n3 := 0\<rparr>) = (1, 1, 0)
   \<and> in_fence (norm_init\<lparr>in_fence := True\<rparr>)
   \<and> norm_lines ascii_digit numbering_cfg (norm_init\<lparr>in_fence := True\<rparr>)
        [u ''# T'' @ [10], u ''## 1. x'' @ [10]] = [u ''# T'' @ [10], u ''## 1. x'' @ [10]]"
proof -
  have h1: "split_nl (u ''### Deep'' @ [10]) = (u ''### Deep'', [10])"
    by (simp add: split_nl_def str_defs)
  have h2: "norm_line ascii_digit numbering_cfg norm_init (u ''### Deep'' @ [10])
       = (norm_init\<lparr>n1 := 1, n2 := 1, n3 := 0\<rparr>, Some (u ''## 1.1. Deep'' @ [10]))"
    by (simp add: norm_defs numbering_cfg_def max_lvl_def ascii_digit_def str_defs re_defs)
  have h3: "counters (norm_init\<lparr>n1 := 1, n2 := 1, n3 := 0\<rparr>) \<noteq> counters norm_init"
    "\<not> in_fence norm_init" "in_fence (norm_init\<lparr>in_fence := True\<rparr>)"
    by (simp_all add: counters_def norm_init_def)
  have h4: "re_match FENCE_RE (u ''### Deep'') = None"
    "re_match HEADING_RE (u ''### Deep'') = Some ([u ''###'', u ''Deep''], [])"
    "promoted_level numbering_cfg (length (group [u ''###'', u ''Deep''] 1)) = 2"
    by (simp_all add: FENCE_RE_def HEADING_RE_def promoted_level_def numbering_cfg_def
        str_defs re_defs)
  have h5: "\<forall>l \<in> set [u ''# T'' @ [10], u ''## 1. x'' @ [10]].
              re_match FENCE_RE (fst (split_nl l)) = None"
    by (simp add: FENCE_RE_def split_nl_def str_defs re_defs)
  note t = auto_numbering_step[OF h1 h2]
  from t h3(1) h4 have c: "counters (norm_init\<lparr>n1 := 1, n2 := 1, n3 := 0\<rparr>) = (1, 1, 0)"
    by (simp add: counters_def norm_init_def)
  have h6: "split_nl (u ''x'') = (u ''x'', [])"
    by (simp add: split_nl_def str_defs)
  have h7: "norm_line ascii_digit numbering_cfg (norm_init\<lparr>in_fence := True\<rparr>) (u ''x'')
       = (norm_init\<lparr>in_fence := True\<rparr>, Some (u ''x''))"
    by (simp add: norm_defs numbering_cfg_def str_defs re_defs)
  from auto_numbering_step[OF h6 h7] h3(3) h5
  have f: "norm_lines ascii_digit numbering_cfg (norm_init\<lparr>in_fence := True\<rparr>)
        [u ''# T'' @ [10], u ''## 1. x'' @ [10]] = [u ''# T'' @ [10], u ''## 1. x'' @ [10]]"
    by blast
  from h1 h2 h3 h4 c f show ?thesis by blast
qed

section \<open>Link rewriting\<close>

lemma rewrite_links_pointwise:
  "rewrite_links lower cf cur as = Inr bs \<Longrightarrow>
     length bs = length as \<and> (\<forall>i < length as. rewrite_link lower cf cur (as ! i) = Inr (bs ! i))"
proof (induction as arbitrary: bs)
  case Nil
  then show ?case by simp
next
  case (Cons a as)
  from Cons.prems obtain a' as' where a': "rewrite_link lower cf cur a = Inr a'"
    and as': "rewrite_links lower cf cur as = Inr as'" and bs: "bs = a' # as'"
    by (auto split: sum.splits)
  from Cons.IH[OF as'] have ih: "length as' = length as"
    "\<forall>i < length as. rewrite_link lower cf cur (as ! i) = Inr (as' ! i)"
    by auto
  show ?case
  proof (intro conjI allI impI)
    show "length bs = length (a # as)"
      using bs ih by simp
  next
    fix i
    assume "i < length (a # as)"
    then show "rewrite_link lower cf cur ((a # as) ! i) = Inr (bs ! i)"
      using a' ih bs by (cases i) auto
  qed
qed

text \<open>
  C8. For an anchor, let \<open>h\<close> be its href stripped of surrounding white space
  (an href as the Markdown renderer writes it has none, so \<open>h\<close> is the href).
  If \<open>h\<close> is empty the anchor is left as it is. Otherwise: if a resolver is set
  and returns a non-empty string for \<open>h\<close> and the current path, the href is
  replaced by that string and nothing else changes; if no resolver is set, or
  it returns \<open>None\<close> or the empty string, then an anchor whose \<open>h\<close> ends in
  \<open>.md\<close> or contains \<open>.md#\<close> (after \<open>lower\<close>) gets the attribute
  \<open>data-source-href\<close> with the value \<open>h\<close>, its href unchanged, and any
  other anchor is left as it is. An exception of the resolver is passed on.
  \<open>_rewrite_links\<close> does this for every anchor of the fragment.
\<close>

theorem rewrite_links_cases:
  fixes a :: anchor
  shows "(strip (case a ''href'' of None \<Rightarrow> [] | Some x \<Rightarrow> x) = [] \<longrightarrow>
            rewrite_link lower cf cur a = Inr a)
   \<and> (\<forall>h f v. h = strip (case a ''href'' of None \<Rightarrow> [] | Some x \<Rightarrow> x) \<and> h \<noteq> []
         \<and> link_resolver cf = Some f \<and> f h cur = Inr (Some v) \<and> v \<noteq> []
         \<longrightarrow> rewrite_link lower cf cur a = Inr (a(''href'' \<mapsto> v)))
   \<and> (\<forall>h. h = strip (case a ''href'' of None \<Rightarrow> [] | Some x \<Rightarrow> x) \<and> h \<noteq> []
         \<and> (link_resolver cf = None
            \<or> (\<exists>f. link_resolver cf = Some f \<and> (f h cur = Inr None \<or> f h cur = Inr (Some []))))
         \<longrightarrow> rewrite_link lower cf cur a
               = Inr (if looks_internal_md lower h then a(''data-source-href'' \<mapsto> h) else a)
             \<and> (a(''data-source-href'' \<mapsto> h)) ''href'' = a ''href'')
   \<and> (\<forall>h f e. h = strip (case a ''href'' of None \<Rightarrow> [] | Some x \<Rightarrow> x) \<and> h \<noteq> []
         \<and> link_resolver cf = Some f \<and> f h cur = Inl e
         \<longrightarrow> rewrite_link lower cf cur a = Inl e)
   \<and> (\<forall>bs. rewrite_links lower cf cur as = Inr bs \<longrightarrow>
         length bs = length as
         \<and> (\<forall>i < length as. rewrite_link lower cf cur (as ! i) = Inr (bs ! i)))"
proof (intro conjI)
  show "\<forall>bs. rewrite_links lower cf cur as = Inr bs \<longrightarrow>
         length bs = length as
         \<and> (\<forall>i < length as. rewrite_link lower cf cur (as ! i) = Inr (bs ! i))"
    using rewrite_links_pointwise by blast
qed (auto simp: rewrite_link_def Let_def split: option.splits sum.splits)

text \<open>
  The theorem at the three links of the link test of tests/test_converter.py:
  one the resolver resolves, one internal link it does not resolve, one external
  link.
\<close>

theorem rewrite_links_cases_witness:
  "rewrite_links ascii_lower (numbering_cfg\<lparr>link_resolver := Some test_resolver\<rparr>)
     (Some (u ''docs/a/b.md''))
     [[''href'' \<mapsto> u ''other.md''], [''href'' \<mapsto> u ''unresolved.md#sec''],
      [''href'' \<mapsto> u ''https://example.com'']]
   = Inr [[''href'' \<mapsto> u ''/pages/viewpage.action?pageId=123''],
          [''href'' \<mapsto> u ''unresolved.md#sec'', ''data-source-href'' \<mapsto> u ''unresolved.md#sec''],
          [''href'' \<mapsto> u ''https://example.com'']]
   \<and> rewrite_link ascii_lower (numbering_cfg\<lparr>link_resolver := Some test_resolver\<rparr>)
       (Some (u ''docs/a/b.md'')) [''href'' \<mapsto> u ''other.md'']
     = Inr [''href'' \<mapsto> u ''/pages/viewpage.action?pageId=123'']
   \<and> rewrite_link ascii_lower (numbering_cfg\<lparr>link_resolver := Some test_resolver\<rparr>)
       (Some (u ''docs/a/b.md'')) [''href'' \<mapsto> u ''unresolved.md#sec'']
     = Inr [''href'' \<mapsto> u ''unresolved.md#sec'', ''data-source-href'' \<mapsto> u ''unresolved.md#sec'']"
proof -
  let ?cf = "numbering_cfg\<lparr>link_resolver := Some test_resolver\<rparr>"
  let ?cur = "Some (u ''docs/a/b.md'')"
  have r: "link_resolver ?cf = Some test_resolver"
    by simp
  have s1: "strip (case [''href'' \<mapsto> u ''other.md''] ''href'' of None \<Rightarrow> [] | Some x \<Rightarrow> x) = u ''other.md''"
    and s2: "strip (case [''href'' \<mapsto> u ''unresolved.md#sec''] ''href'' of None \<Rightarrow> [] | Some x \<Rightarrow> x)
             = u ''unresolved.md#sec''"
    by (simp_all add: str_defs)
  have f1: "test_resolver (u ''other.md'') ?cur = Inr (Some (u ''/pages/viewpage.action?pageId=123''))"
    and f2: "test_resolver (u ''unresolved.md#sec'') ?cur = Inr None"
    by (simp_all add: test_resolver_def u_def)
  have ne: "u ''other.md'' \<noteq> []" "u ''unresolved.md#sec'' \<noteq> []"
    "u ''/pages/viewpage.action?pageId=123'' \<noteq> []"
    by (simp_all add: u_def)
  have lk: "looks_internal_md ascii_lower (u ''unresolved.md#sec'')"
    by (simp add: looks_internal_md_def ascii_lower_def str_defs)
  from rewrite_links_cases[of "[''href'' \<mapsto> u ''other.md'']" ascii_lower ?cf ?cur "[]"] r s1 f1 ne
  have a1: "rewrite_link ascii_lower ?cf ?cur [''href'' \<mapsto> u ''other.md'']
     = Inr [''href'' \<mapsto> u ''/pages/viewpage.action?pageId=123'']"
    by simp
  from rewrite_links_cases[of "[''href'' \<mapsto> u ''unresolved.md#sec'']" ascii_lower ?cf ?cur "[]"]
    r s2 f2 ne lk
  have a2: "rewrite_link ascii_lower ?cf ?cur [''href'' \<mapsto> u ''unresolved.md#sec'']
     = Inr [''href'' \<mapsto> u ''unresolved.md#sec'', ''data-source-href'' \<mapsto> u ''unresolved.md#sec'']"
    by simp
  have a3: "rewrite_link ascii_lower ?cf ?cur [''href'' \<mapsto> u ''https://example.com'']
     = Inr [''href'' \<mapsto> u ''https://example.com'']"
    by (simp add: rewrite_link_def test_resolver_def looks_internal_md_def ascii_lower_def
        str_defs Let_def)
  from a1 a2 a3 show ?thesis
    by simp
qed

section \<open>The link resolver\<close>

lemma link_resolver_base:
  assumes "urlparse L (base_url c1) = Inr q1" "urlparse L (base_url c2) = Inr q2"
      and "url_path q1 = url_path q2"
  shows "publisher_link_resolver L c1 p2p href cur = publisher_link_resolver L c2 p2p href cur"
  using assms unfolding publisher_link_resolver_def Let_def
  by (auto split: option.splits sum.splits)

lemma link_resolver_url:
  assumes "publisher_link_resolver L c p2p href cur = Inr (Some url)"
  shows "\<exists>parsed uu page_id target.
       urlparse L (base_url c) = Inr parsed \<and> urlparse L href = Inr uu \<and>
       p2p target = Some page_id \<and> page_id \<noteq> [] \<and>
       url = context_path (url_path parsed) @ u ''/pages/viewpage.action?pageId='' @ page_id
             @ (if url_fragment uu \<noteq> [] then [35] @ url_fragment uu else [])"
  using assms unfolding publisher_link_resolver_def Let_def if_truthy_def
  by (auto split: option.splits sum.splits if_splits)

text \<open>
  C9. Let two base addresses parse to the same path (their scheme and host may
  differ). Then for every href and current path the resolver gives the same
  result under both. Any URL it returns is the context path (the path of the
  base address without trailing slashes and without a trailing \<open>/rest/api\<close>,
  with a leading slash when it is not empty), followed by
  \<open>/pages/viewpage.action?pageId=\<close> and the id that the path index holds for
  the target, followed by \<open>#\<close> and the fragment of the href when it has one.
  Scheme and host of the base address are not read.
\<close>

theorem link_resolver_host_independent:
  assumes "urlparse L b1 = Inr q1" and "urlparse L b2 = Inr q2" and "url_path q1 = url_path q2"
  shows "publisher_link_resolver L (c\<lparr>base_url := b1\<rparr>) p2p href cur
           = publisher_link_resolver L (c\<lparr>base_url := b2\<rparr>) p2p href cur
       \<and> (\<forall>url. publisher_link_resolver L (c\<lparr>base_url := b1\<rparr>) p2p href cur = Inr (Some url) \<longrightarrow>
             (\<exists>uu page_id target.
                urlparse L href = Inr uu \<and> p2p target = Some page_id \<and> page_id \<noteq> [] \<and>
                url = context_path (url_path q1) @ u ''/pages/viewpage.action?pageId='' @ page_id
                      @ (if url_fragment uu \<noteq> [] then [35] @ url_fragment uu else [])))"
proof (intro conjI allI impI)
  show "publisher_link_resolver L (c\<lparr>base_url := b1\<rparr>) p2p href cur
           = publisher_link_resolver L (c\<lparr>base_url := b2\<rparr>) p2p href cur"
    by (rule link_resolver_base[of L _ q1 _ q2]) (simp_all add: assms)
next
  fix url
  assume "publisher_link_resolver L (c\<lparr>base_url := b1\<rparr>) p2p href cur = Inr (Some url)"
  from link_resolver_url[OF this] assms(1)
  show "\<exists>uu page_id target.
          urlparse L href = Inr uu \<and> p2p target = Some page_id \<and> page_id \<noteq> [] \<and>
          url = context_path (url_path q1) @ u ''/pages/viewpage.action?pageId='' @ page_id
                @ (if url_fragment uu \<noteq> [] then [35] @ url_fragment uu else [])"
    by auto
qed

text \<open>
  The theorem at the link of the resolver test of
  tests/test_docs_publisher_ensure_page.py, under the base address of the test
  and under one with another scheme and host: the same relative URL.
\<close>

theorem link_resolver_host_independent_witness:
  "urlparse test_lib (u ''https://conf.company.ru/wiki'')
     = Inr \<lparr>url_scheme = u ''https'', url_netloc = u ''conf.company.ru'', url_path = u ''/wiki'',
            url_fragment = []\<rparr>
   \<and> urlparse test_lib (u ''http://host.docker.internal:8090/wiki'')
     = Inr \<lparr>url_scheme = u ''http'', url_netloc = u ''host.docker.internal:8090'',
            url_path = u ''/wiki'', url_fragment = []\<rparr>
   \<and> publisher_link_resolver test_lib (test_cfg\<lparr>base_url := u ''https://conf.company.ru/wiki''\<rparr>)
        [u ''docs/a/b.md'' \<mapsto> u ''123''] (u ''./b.md#sec'') (Some (u ''docs/a/c.md''))
      = Inr (Some (u ''/wiki/pages/viewpage.action?pageId=123#sec''))
   \<and> publisher_link_resolver test_lib
        (test_cfg\<lparr>base_url := u ''http://host.docker.internal:8090/wiki''\<rparr>)
        [u ''docs/a/b.md'' \<mapsto> u ''123''] (u ''./b.md#sec'') (Some (u ''docs/a/c.md''))
      = Inr (Some (u ''/wiki/pages/viewpage.action?pageId=123#sec''))"
proof -
  have p1: "urlparse test_lib (u ''https://conf.company.ru/wiki'')
     = Inr \<lparr>url_scheme = u ''https'', url_netloc = u ''conf.company.ru'', url_path = u ''/wiki'',
            url_fragment = []\<rparr>"
    by (simp add: test_lib_def urlparse_examples_def)
  have p2: "urlparse test_lib (u ''http://host.docker.internal:8090/wiki'')
     = Inr \<lparr>url_scheme = u ''http'', url_netloc = u ''host.docker.internal:8090'',
            url_path = u ''/wiki'', url_fragment = []\<rparr>"
    by (simp add: test_lib_def urlparse_examples_def u_def)
  have r1: "publisher_link_resolver test_lib (test_cfg\<lparr>base_url := u ''https://conf.company.ru/wiki''\<rparr>)
        [u ''docs/a/b.md'' \<mapsto> u ''123''] (u ''./b.md#sec'') (Some (u ''docs/a/c.md''))
      = Inr (Some (u ''/wiki/pages/viewpage.action?pageId=123#sec''))"
    by (simp add: publisher_link_resolver_def test_lib_def test_cfg_def urlparse_examples_def
        if_truthy_def ascii_lower_def norm_posix_def context_path_def replace_char_def
        rstrip_char_def lstrip_char_def endswith_def u_def Let_def)
  from link_resolver_host_independent[OF p1 p2, of test_cfg "[u ''docs/a/b.md'' \<mapsto> u ''123'']"
      "u ''./b.md#sec''" "Some (u ''docs/a/c.md'')"] r1
  have r2: "publisher_link_resolver test_lib
        (test_cfg\<lparr>base_url := u ''http://host.docker.internal:8090/wiki''\<rparr>)
        [u ''docs/a/b.md'' \<mapsto> u ''123''] (u ''./b.md#sec'') (Some (u ''docs/a/c.md''))
      = Inr (Some (u ''/wiki/pages/viewpage.action?pageId=123#sec''))"
    by simp
  from p1 p2 r1 r2 show ?thesis
    by blast
qed

section \<open>Runs of the publisher\<close>

subsection \<open>The call log\<close>

lemma ext_refl: "ext Q w w"
  by (simp add: ext_def)

lemma ext_trans: "ext Q w w1 \<Longrightarrow> ext Q w1 w2 \<Longrightarrow> ext Q w w2"
  unfolding ext_def by (elim conjE exE) (simp, blast)

lemma ext_mono: "ext Q w w' \<Longrightarrow> (\<And>ev. Q ev \<Longrightarrow> Q' ev) \<Longrightarrow> ext Q' w w'"
  unfolding ext_def by blast

lemma ext_new_calls:
  "ext Q w w' \<Longrightarrow> calls w' = calls w @ new_calls w w' \<and> (\<forall>ev \<in> set (new_calls w w'). Q ev)"
  unfolding ext_def new_calls_def by auto

lemma new_calls_trans:
  "ext Q w w1 \<Longrightarrow> ext Q' w1 w2 \<Longrightarrow> new_calls w w2 = new_calls w w1 @ new_calls w1 w2"
  unfolding ext_def new_calls_def by auto

lemma new_calls_same: "calls w' = calls w \<Longrightarrow> new_calls w w' = []"
  by (simp add: new_calls_def)

lemma ext_pages_created:
  "ext Q w w' \<Longrightarrow> pages_created w' = pages_created w + length (filter page_created (new_calls w w'))"
  unfolding ext_def pages_created_def new_calls_def by auto

lemma on_page_not_created: "on_page pid ev \<Longrightarrow> \<not> page_created ev"
  by (cases ev rule: page_created.cases) (auto simp: on_page_def)

lemma ext_on_page_created: "ext (on_page pid) w w' \<Longrightarrow> pages_created w' = pages_created w"
  using ext_pages_created[of "on_page pid" w w'] ext_new_calls[of "on_page pid" w w']
  by (auto simp: filter_empty_conv dest: on_page_not_created)

lemma invoke_calls:
  assumes "invoke c operation out w = (res, w')"
  shows "key_to_page w' = key_to_page w \<and> label_to_page w' = label_to_page w
      \<and> path_to_page w' = path_to_page w
      \<and> calls w' = calls w @ [(c, case res of Inl e \<Rightarrow> Raised e | Inr x \<Rightarrow> out x)]
      \<and> (\<exists>r'. operation (remote w) = (res, r') \<and> remote w' = r')"
  using assms by (auto simp: invoke_def split: prod.splits)

lemma invoke_ext:
  assumes "invoke c operation out w = (res, w')" "\<And>oc. Q (c, oc)"
  shows "ext Q w w'"
  using invoke_calls[OF assms(1)] assms(2) by (auto simp: ext_def)

lemma invoke_new_calls:
  assumes "invoke c operation out w = (res, w')"
  shows "new_calls w w' = [(c, case res of Inl e \<Rightarrow> Raised e | Inr x \<Rightarrow> out x)]"
  using invoke_calls[OF assms] by (simp add: new_calls_def)

lemma invoke_raised:
  assumes "invoke c operation out w = (res, w')"
  shows "raised_by_call w w' res"
  using invoke_new_calls[OF assms] by (auto simp: raised_by_call_def)

lemma raised_by_call_trans1:
  "ext Q w w1 \<Longrightarrow> ext Q' w1 w2 \<Longrightarrow> raised_by_call w1 w2 res \<Longrightarrow> raised_by_call w w2 res"
  using new_calls_trans[of Q w w1 Q' w2] by (auto simp: raised_by_call_def)

lemma raised_by_call_trans2:
  "ext Q w w1 \<Longrightarrow> ext Q' w1 w2 \<Longrightarrow> raised_by_call w w1 (Inl e) \<Longrightarrow> raised_by_call w w2 (Inl e)"
  using new_calls_trans[of Q w w1 Q' w2] by (auto simp: raised_by_call_def)

lemma and_then_cases:
  assumes "and_then m f w = (res, w'')"
  obtains (raised) e where "m w = (Inl e, w'')" "res = Inl e"
        | (returned) x w' where "m w = (Inr x, w')" "f x w' = (res, w'')"
  using assms by (auto simp: and_then_def split: prod.splits sum.splits)

text \<open>try_update\<close>

lemma try_update_loop_ext:
  "try_update_loop pub pid parent_id storage last_err ts w = (res, w') \<Longrightarrow> ext (on_page pid) w w'"
proof (induction ts arbitrary: last_err w)
  case Nil
  then show ?case by (auto simp: ext_refl)
next
  case (Cons t ts)
  obtain r w1 where up: "conf_update_page pub pid parent_id t storage w = (r, w1)"
    by (cases "conf_update_page pub pid parent_id t storage w")
  have e1: "ext (on_page pid) w w1"
    using up unfolding conf_update_page_def by (rule invoke_ext) (simp add: on_page_def)
  from Cons.prems up have "w' = w1 \<or>
     (\<exists>le. try_update_loop pub pid parent_id storage le ts w1 = (res, w'))"
    by (auto split: sum.splits exn.splits if_splits)
  then show ?case
    using e1 Cons.IH ext_trans by blast
qed

lemma try_update_loop_ok:
  "try_update_loop pub pid parent_id storage last_err ts w = (Inr t, w') \<Longrightarrow>
     t \<in> set ts \<and> (UpdatePage pid (space (cfg pub)) parent_id t storage, Returned) \<in> set (new_calls w w')"
proof (induction ts arbitrary: last_err w)
  case Nil
  then show ?case by simp
next
  case (Cons t0 ts)
  obtain r w1 where up: "conf_update_page pub pid parent_id t0 storage w = (r, w1)"
    by (cases "conf_update_page pub pid parent_id t0 storage w")
  have e1: "ext (on_page pid) w w1"
    using up unfolding conf_update_page_def by (rule invoke_ext) (simp add: on_page_def)
  have n1: "new_calls w w1 = [(UpdatePage pid (space (cfg pub)) parent_id t0 storage,
                               case r of Inl e \<Rightarrow> Raised e | Inr x \<Rightarrow> Returned)]"
    using up unfolding conf_update_page_def by (rule invoke_new_calls)
  show ?case
  proof (cases r)
    case (Inr x)
    with Cons.prems up have "t = t0" "w' = w1" by auto
    with n1 Inr show ?thesis by simp
  next
    case (Inl e)
    with Cons.prems up obtain le where
      rec: "try_update_loop pub pid parent_id storage le ts w1 = (Inr t, w')"
      by (auto split: exn.splits if_splits)
    from Cons.IH[OF rec] new_calls_trans[OF e1 try_update_loop_ext[OF rec]]
    show ?thesis by auto
  qed
qed

lemma try_update_loop_raised:
  "try_update_loop pub pid parent_id storage last_err ts w = (Inl e, w') \<Longrightarrow>
     (\<exists>c. (c, Raised e) \<in> set (new_calls w w')) \<or> last_err = Some e \<or> (last_err = None \<and> ts = [])"
proof (induction ts arbitrary: last_err w)
  case Nil
  then show ?case by (auto split: option.splits)
next
  case (Cons t0 ts)
  obtain r w1 where up: "conf_update_page pub pid parent_id t0 storage w = (r, w1)"
    by (cases "conf_update_page pub pid parent_id t0 storage w")
  have e1: "ext (on_page pid) w w1"
    using up unfolding conf_update_page_def by (rule invoke_ext) (simp add: on_page_def)
  have n1: "new_calls w w1 = [(UpdatePage pid (space (cfg pub)) parent_id t0 storage,
                               case r of Inl e \<Rightarrow> Raised e | Inr x \<Rightarrow> Returned)]"
    using up unfolding conf_update_page_def by (rule invoke_new_calls)
  from Cons.prems up obtain e0 where r: "r = Inl e0"
    by (cases r) auto
  from Cons.prems up r have "(e = e0 \<and> w' = w1) \<or>
      try_update_loop pub pid parent_id storage (Some e0) ts w1 = (Inl e, w')"
    by (auto split: exn.splits if_splits)
  then show ?case
  proof
    assume "e = e0 \<and> w' = w1"
    with n1 r show ?thesis by auto
  next
    assume rec: "try_update_loop pub pid parent_id storage (Some e0) ts w1 = (Inl e, w')"
    from Cons.IH[OF rec] have "(\<exists>c. (c, Raised e) \<in> set (new_calls w1 w')) \<or> e0 = e"
      by auto
    with new_calls_trans[OF e1 try_update_loop_ext[OF rec]] n1 r show ?thesis
      by auto
  qed
qed

lemma raised_by_call_Inl:
  "raised_by_call w w' (Inl e) \<longleftrightarrow> (\<exists>c. (c, Raised e) \<in> set (new_calls w w'))"
  by (simp add: raised_by_call_def)

lemma raised_by_call_Inr: "raised_by_call w w' (Inr x)"
  by (simp add: raised_by_call_def)

lemma raised_later:
  assumes "ext Q w w1" "ext Q' w1 w2" "\<exists>c. (c, Raised e) \<in> set (new_calls w1 w2)"
  shows "\<exists>c. (c, Raised e) \<in> set (new_calls w w2)"
  using new_calls_trans[OF assms(1,2)] assms(3) by auto

lemma raised_earlier:
  assumes "ext Q w w1" "ext Q' w1 w2" "\<exists>c. (c, Raised e) \<in> set (new_calls w w1)"
  shows "\<exists>c. (c, Raised e) \<in> set (new_calls w w2)"
  using new_calls_trans[OF assms(1,2)] assms(3) by auto

lemma try_update_ext:
  "try_update L pub k title parent_id storage cp pid w = (res, w') \<Longrightarrow> ext (on_page pid) w w'"
  unfolding try_update_def by (rule try_update_loop_ext)

lemma try_update_ok:
  "try_update L pub k title parent_id storage cp pid w = (Inr t, w') \<Longrightarrow>
     t \<in> set (title_candidates L k cp title)
     \<and> (UpdatePage pid (space (cfg pub)) parent_id t storage, Returned) \<in> set (new_calls w w')"
  unfolding try_update_def by (rule try_update_loop_ok)

lemma try_update_raised:
  "try_update L pub k title parent_id storage cp pid w = (res, w') \<Longrightarrow> raised_by_call w w' res"
proof (cases res)
  case (Inl e)
  assume "try_update L pub k title parent_id storage cp pid w = (res, w')"
  with Inl have "try_update_loop pub pid parent_id storage None (title_candidates L k cp title) w
      = (Inl e, w')"
    by (simp add: try_update_def)
  from try_update_loop_raised[OF this] title_candidates_nonempty[of L k cp title] Inl
  show ?thesis
    by (simp add: raised_by_call_Inl)
next
  case (Inr t)
  then show ?thesis by (simp add: raised_by_call_Inr)
qed

lemma ensure_labels_ext:
  "ensure_labels pub pid labels w = (res, w') \<Longrightarrow> ext (on_page pid) w w' \<and> raised_by_call w w' res"
  unfolding ensure_labels_def conf_add_labels_def
  using invoke_ext[of _ _ _ w res w' "on_page pid"] invoke_raised[of _ _ _ w res w']
  by (simp add: on_page_def)

lemma put_property_ext:
  "conf_put_property pub pid pk v w = (res, w') \<Longrightarrow> ext (on_page pid) w w' \<and> raised_by_call w w' res"
  unfolding conf_put_property_def
  using invoke_ext[of _ _ _ w res w' "on_page pid"] invoke_raised[of _ _ _ w res w']
  by (simp add: on_page_def)

lemma delete_label_ext:
  "conf_delete_label pub pid lb w = (res, w') \<Longrightarrow> ext (on_page pid) w w'"
  unfolding conf_delete_label_def
  using invoke_ext[of _ _ _ w res w' "on_page pid"]
  by (simp add: on_page_def)

lemma delete_labels_quietly_ext:
  "delete_labels_quietly pub pid lbs w = (res, w') \<Longrightarrow> ext (on_page pid) w w' \<and> res = Inr ()"
proof (induction lbs arbitrary: w)
  case Nil
  then show ?case by (auto simp: ext_refl)
next
  case (Cons lb lbs)
  obtain r w1 where d: "conf_delete_label pub pid lb w = (r, w1)"
    by (cases "conf_delete_label pub pid lb w")
  with Cons.prems have rec: "delete_labels_quietly pub pid lbs w1 = (res, w')"
    by (simp add: attempt_def)
  from Cons.IH[OF rec] delete_label_ext[OF d] show ?case
    using ext_trans by blast
qed

lemma write_source_meta_ext:
  assumes "write_source_meta L pub k pid used meta_labels w = (res, w')"
  shows "ext (on_page pid) w w' \<and> raised_by_call w w' res"
proof -
  define pl where "pl = \<lparr>p_key = k, p_title = used, p_src_hash = take 12 (sha1_hex L k),
                p_meta_labels = map (\<lambda>x. str_lower L (strip x)) (filter (\<lambda>x. strip x \<noteq> []) meta_labels)\<rparr>"
  from assms have run: "and_then (conf_put_property pub pid PROPERTY_KEY pl)
           (\<lambda>x. and_then (conf_put_property pub pid (u ''source'') pl)
              (\<lambda>y. if opt_get (options (cfg pub)) ''migrate_legacy_doc_labels'' True
                    then delete_labels_quietly pub pid VISIBLE_META_LABELS
                    else ret ())) w = (res, w')"
    by (simp add: write_source_meta_def pl_def Let_def)
  from run show ?thesis
  proof (cases rule: and_then_cases)
    case (raised e)
    with put_property_ext[OF raised(1)] show ?thesis
      by (simp add: raised_by_call_Inl)
  next
    case (returned x w1)
    note e1 = put_property_ext[OF returned(1), THEN conjunct1]
    from returned(2) show ?thesis
    proof (cases rule: and_then_cases)
      case (raised e)
      note e2 = put_property_ext[OF raised(1)]
      have "ext (on_page pid) w w'"
        using e1 e2 by (blast intro: ext_trans)
      moreover have "\<exists>c. (c, Raised e) \<in> set (new_calls w w')"
        using raised_later[OF e1 e2[THEN conjunct1]] e2 by (simp add: raised_by_call_Inl)
      ultimately show ?thesis
        using raised(2) by (simp add: raised_by_call_Inl)
    next
      case (returned y w2)
      note e2 = put_property_ext[OF returned(1), THEN conjunct1]
      have "ext (on_page pid) w2 w' \<and> res = Inr ()"
        using returned(2) delete_labels_quietly_ext[of pub pid VISIBLE_META_LABELS w2 res w']
        by (auto simp: ret_def ext_refl split: if_splits)
      with e1 e2 show ?thesis
        by (auto intro: ext_trans simp: raised_by_call_Inr)
    qed
  qed
qed

lemma update_and_mark_ext:
  assumes "update_and_mark L pub k title parent_id storage extra page_labels cp pid w = (res, w')"
  shows "ext (on_page pid) w w' \<and> raised_by_call w w' res
       \<and> (res = Inr () \<longrightarrow> (\<exists>t \<in> set (title_candidates L k cp title).
              (UpdatePage pid (space (cfg pub)) parent_id t storage, Returned) \<in> set (new_calls w w')))"
  using assms unfolding update_and_mark_def
proof (cases rule: and_then_cases)
  case (raised e)
  from try_update_ext[OF raised(1)] try_update_raised[OF raised(1)] raised(2) show ?thesis
    by (simp add: raised_by_call_Inl)
next
  case (returned used w1)
  note e1 = try_update_ext[OF returned(1)]
  note ok = try_update_ok[OF returned(1)]
  from returned(2) show ?thesis
  proof (cases rule: and_then_cases)
    case (raised e)
    note e2 = ensure_labels_ext[OF raised(1)]
    have "ext (on_page pid) w w'"
      using e1 e2 by (blast intro: ext_trans)
    moreover have "\<exists>c. (c, Raised e) \<in> set (new_calls w w')"
      using raised_later[OF e1 e2[THEN conjunct1]] e2 by (simp add: raised_by_call_Inl)
    ultimately show ?thesis
      using raised(2) by (simp add: raised_by_call_Inl)
  next
    case (returned x w2)
    note e2 = ensure_labels_ext[OF returned(1), THEN conjunct1]
    note e3 = write_source_meta_ext[OF returned(2)]
    have e12: "ext (on_page pid) w w2"
      using e1 e2 by (blast intro: ext_trans)
    have e13: "ext (on_page pid) w w'"
      using e12 e3 by (blast intro: ext_trans)
    have nc: "new_calls w w' = new_calls w w1 @ new_calls w1 w2 @ new_calls w2 w'"
      using new_calls_trans[OF e12 e3[THEN conjunct1]] new_calls_trans[OF e1 e2]
      by simp
    have upd: "\<exists>t \<in> set (title_candidates L k cp title).
              (UpdatePage pid (space (cfg pub)) parent_id t storage, Returned) \<in> set (new_calls w w')"
      using ok nc by auto
    have rb: "raised_by_call w w' res"
    proof (cases res)
      case (Inl e)
      with e3 have "\<exists>c. (c, Raised e) \<in> set (new_calls w2 w')"
        by (simp add: raised_by_call_Inl)
      from raised_later[OF e12 e3[THEN conjunct1] this] Inl show ?thesis
        by (simp add: raised_by_call_Inl)
    next
      case (Inr y)
      then show ?thesis by (simp add: raised_by_call_Inr)
    qed
    from e13 upd rb show ?thesis by simp
  qed
qed

lemma drop_label_and_claim_run:
  assumes "drop_label_and_claim pub k lb pid w = (res, w')"
  shows "res = Inr pid \<and> key_to_page w' = (key_to_page w)(k \<mapsto> pid)
       \<and> label_to_page w' = label_to_page w \<and> path_to_page w' = path_to_page w
       \<and> (\<exists>oc. calls w' = calls w @ [(DeleteLabel pid lb, oc)])"
proof -
  obtain r w1 where d: "conf_delete_label pub pid lb w = (r, w1)"
    by (cases "conf_delete_label pub pid lb w")
  from invoke_calls[OF d[unfolded conf_delete_label_def]] assms d show ?thesis
    by (auto simp: drop_label_and_claim_def and_then_def attempt_def set_key_to_page_def ret_def)
qed

subsection \<open>Adoption and creation\<close>

lemma adopt_disabled:
  "\<not> opt_get (options (cfg pub)) ''adopt_existing_by_title_under_root'' True \<Longrightarrow>
     adopt_by_title_under_root pub title w = (Inr None, w)"
  by (simp add: adopt_by_title_under_root_def ret_def)

lemma adopt_enabled:
  assumes en: "opt_get (options (cfg pub)) ''adopt_existing_by_title_under_root'' True"
      and f: "find_page_by_title (conf pub) (space (cfg pub)) title (remote w) = (fres, r')"
  shows "adopt_by_title_under_root pub title w =
           ((case fres of
               Inl e \<Rightarrow> Inl e
             | Inr None \<Rightarrow> Inr None
             | Inr (Some pg) \<Rightarrow>
                 Inr (if docs_root_id (cfg pub) \<in> set (pj_ancestors pg) then Some (pj_id pg) else None)),
            w\<lparr>remote := r',
              calls := calls w @ [(FindPageByTitle (space (cfg pub)) title,
                                   case fres of Inl e \<Rightarrow> Raised e | Inr x \<Rightarrow> ReturnedPage x)]\<rparr>)"
  using en f
  by (auto simp: adopt_by_title_under_root_def and_then_def conf_find_page_by_title_def invoke_def
      ret_def split: sum.splits option.splits)

lemma adopt_ext:
  assumes "adopt_by_title_under_root pub title w = (res, w')"
  shows "ext (\<lambda>ev. \<not> page_created ev) w w'
       \<and> (\<forall>a. res = Inr (Some a) \<longrightarrow>
            (\<exists>pg. (FindPageByTitle (space (cfg pub)) title, ReturnedPage (Some pg)) \<in> set (new_calls w w')
                  \<and> pj_id pg = a \<and> docs_root_id (cfg pub) \<in> set (pj_ancestors pg)))"
proof (cases "opt_get (options (cfg pub)) ''adopt_existing_by_title_under_root'' True")
  case False
  from adopt_disabled[OF False, of title w] assms show ?thesis
    by (auto simp: ext_refl)
next
  case True
  obtain fres r' where f: "find_page_by_title (conf pub) (space (cfg pub)) title (remote w) = (fres, r')"
    by (cases "find_page_by_title (conf pub) (space (cfg pub)) title (remote w)")
  from adopt_enabled[OF True f] assms show ?thesis
    by (auto simp: ext_def new_calls_def split: sum.splits option.splits if_splits)
qed

lemma pages_created_le_mono:
  "ext Q w w1 \<Longrightarrow> (\<forall>ev. Q ev \<longrightarrow> \<not> page_created ev) \<Longrightarrow> pages_created w1 = pages_created w"
  using ext_pages_created[of Q w w1] ext_new_calls[of Q w w1]
  by (auto simp: filter_empty_conv)

lemma try_create_loop_run:
  "try_create_loop L pub k title parent_id storage cp last_err ts w = (res, w') \<Longrightarrow>
     ext (\<lambda>ev. True) w w' \<and> pages_created w' \<le> pages_created w + 1
     \<and> (\<forall>pid t. res = Inr (pid, t) \<longrightarrow>
          (\<exists>t' \<in> set ts. (CreatePage (space (cfg pub)) parent_id t' storage, ReturnedId (Some pid))
                            \<in> set (new_calls w w'))
          \<or> (pid \<noteq> [] \<and> pages_created w' = pages_created w
              \<and> (\<exists>t' \<in> set ts. \<exists>pg. (FindPageByTitle (space (cfg pub)) t', ReturnedPage (Some pg))
                                       \<in> set (new_calls w w')
                                    \<and> pj_id pg = pid \<and> docs_root_id (cfg pub) \<in> set (pj_ancestors pg))))"
proof (induction ts arbitrary: last_err w)
  case Nil
  then show ?case by (auto simp: ext_refl)
next
  case (Cons t0 ts)
  let ?sp = "space (cfg pub)"
  obtain r w1 where cr: "conf_create_page pub parent_id t0 storage w = (r, w1)"
    by (cases "conf_create_page pub parent_id t0 storage w")
  have e1: "ext (\<lambda>ev. True) w w1"
    using cr unfolding conf_create_page_def by (rule invoke_ext) simp
  have n1: "new_calls w w1 = [(CreatePage ?sp parent_id t0 storage,
                               case r of Inl e \<Rightarrow> Raised e | Inr x \<Rightarrow> ReturnedId x)]"
    using cr unfolding conf_create_page_def by (rule invoke_new_calls)
  have pc1: "pages_created w1 = pages_created w + (case r of Inl e \<Rightarrow> 0 | Inr x \<Rightarrow> 1)"
    using ext_pages_created[OF e1] n1 by (auto split: sum.splits)
  show ?case
  proof (cases r)
    case (Inr x)
    with Cons.prems cr have w': "w' = w1" and res: "res = (case x of Some i \<Rightarrow> Inr (i, t0) | None \<Rightarrow> Inl (OtherError (u ''KeyError: id'')))"
      by (auto split: option.splits)
    from w' res e1 n1 pc1 Inr show ?thesis
      by (auto split: option.splits)
  next
    case (Inl e)
    show ?thesis
    proof (cases "\<exists>msg. e = RuntimeError msg \<and> is_title_exists msg")
      case False
      with Cons.prems cr Inl have "w' = w1" "res = Inl e"
        by (auto split: exn.splits if_splits)
      with e1 pc1 Inl show ?thesis by auto
    next
      case True
      then obtain msg where e: "e = RuntimeError msg" and te: "is_title_exists msg" by auto
      obtain ar w2 where ad: "adopt_by_title_under_root pub t0 w1 = (ar, w2)"
        by (cases "adopt_by_title_under_root pub t0 w1")
      note ae = adopt_ext[OF ad]
      have e2: "ext (\<lambda>ev. True) w w2"
        using e1 ae by (blast intro: ext_trans ext_mono)
      have pc2: "pages_created w2 = pages_created w"
        using pages_created_le_mono[OF ae[THEN conjunct1]] pc1 Inl by simp
      have n2: "new_calls w w2 = new_calls w w1 @ new_calls w1 w2"
        using new_calls_trans[OF e1 ae[THEN conjunct1]] .
      show ?thesis
      proof (cases ar)
        case (Inl e')
        with Cons.prems cr \<open>r = Inl e\<close> e te ad have "w' = w2" "res = Inl e'" by auto
        with e2 pc2 show ?thesis by auto
      next
        case (Inr adopted)
        show ?thesis
        proof (cases "if_truthy adopted")
          case None
          with Cons.prems cr \<open>r = Inl e\<close> e te ad Inr
          have rec: "try_create_loop L pub k title parent_id storage cp (Some (RuntimeError msg)) ts w2
                 = (res, w')"
            by (auto simp: if_truthy_def split: option.splits if_splits)
          note ih = Cons.IH[OF rec]
          have e3: "ext (\<lambda>ev. True) w w'"
            using e2 ih by (blast intro: ext_trans)
          have n3: "new_calls w w' = new_calls w w2 @ new_calls w2 w'"
            using new_calls_trans[OF e2 ih[THEN conjunct1]] .
          have sub: "set (new_calls w2 w') \<subseteq> set (new_calls w w')"
            using n3 by auto
          have pc: "pages_created w' \<le> pages_created w + 1"
            using ih pc2 by simp
          have "\<forall>pid t. res = Inr (pid, t) \<longrightarrow>
            (\<exists>t' \<in> set (t0 # ts). (CreatePage ?sp parent_id t' storage, ReturnedId (Some pid))
                            \<in> set (new_calls w w'))
            \<or> (pid \<noteq> [] \<and> pages_created w' = pages_created w
              \<and> (\<exists>t' \<in> set (t0 # ts). \<exists>pg. (FindPageByTitle ?sp t', ReturnedPage (Some pg))
                                       \<in> set (new_calls w w')
                                    \<and> pj_id pg = pid \<and> docs_root_id (cfg pub) \<in> set (pj_ancestors pg)))"
          proof (intro allI impI)
            fix pid t
            assume r: "res = Inr (pid, t)"
            with ih have "(\<exists>t' \<in> set ts. (CreatePage ?sp parent_id t' storage, ReturnedId (Some pid))
                            \<in> set (new_calls w2 w'))
              \<or> (pid \<noteq> [] \<and> pages_created w' = pages_created w2
                \<and> (\<exists>t' \<in> set ts. \<exists>pg. (FindPageByTitle ?sp t', ReturnedPage (Some pg))
                                       \<in> set (new_calls w2 w')
                                    \<and> pj_id pg = pid \<and> docs_root_id (cfg pub) \<in> set (pj_ancestors pg)))"
              by blast
            then show "(\<exists>t' \<in> set (t0 # ts). (CreatePage ?sp parent_id t' storage, ReturnedId (Some pid))
                            \<in> set (new_calls w w'))
              \<or> (pid \<noteq> [] \<and> pages_created w' = pages_created w
                \<and> (\<exists>t' \<in> set (t0 # ts). \<exists>pg. (FindPageByTitle ?sp t', ReturnedPage (Some pg))
                                       \<in> set (new_calls w w')
                                    \<and> pj_id pg = pid \<and> docs_root_id (cfg pub) \<in> set (pj_ancestors pg)))"
            proof
              assume "\<exists>t' \<in> set ts. (CreatePage ?sp parent_id t' storage, ReturnedId (Some pid))
                            \<in> set (new_calls w2 w')"
              with sub show ?thesis by auto
            next
              assume "pid \<noteq> [] \<and> pages_created w' = pages_created w2
                \<and> (\<exists>t' \<in> set ts. \<exists>pg. (FindPageByTitle ?sp t', ReturnedPage (Some pg))
                                       \<in> set (new_calls w2 w')
                                    \<and> pj_id pg = pid \<and> docs_root_id (cfg pub) \<in> set (pj_ancestors pg))"
              with sub pc2 show ?thesis by (simp only: list.set) blast
            qed
          qed
          with e3 pc show ?thesis
            by blast
        next
          case (Some adopted_id)
          then have ad_id: "adopted = Some adopted_id" "adopted_id \<noteq> []"
            by (auto simp: if_truthy_def split: option.splits if_splits)
          with Cons.prems cr \<open>r = Inl e\<close> e te ad Inr
          have run: "and_then (try_update L pub k title parent_id storage cp adopted_id)
                       (\<lambda>used. ret (adopted_id, used)) w2 = (res, w')"
            by auto
          from ae Inr ad_id obtain pg where
            pg: "(FindPageByTitle ?sp t0, ReturnedPage (Some pg)) \<in> set (new_calls w1 w2)"
              "pj_id pg = adopted_id" "docs_root_id (cfg pub) \<in> set (pj_ancestors pg)"
            by auto
          from run obtain ur where tu: "try_update L pub k title parent_id storage cp adopted_id w2 = (ur, w')"
            and res: "res = (case ur of Inl e \<Rightarrow> Inl e | Inr used \<Rightarrow> Inr (adopted_id, used))"
            by (auto simp: and_then_def ret_def split: prod.splits sum.splits)
          note ue = try_update_ext[OF tu]
          have e3: "ext (\<lambda>ev. True) w w'"
            using e2 ue by (blast intro: ext_trans ext_mono)
          have pc3: "pages_created w' = pages_created w"
            using ext_on_page_created[OF ue] pc2 by simp
          have n3: "new_calls w w' = new_calls w w2 @ new_calls w2 w'"
            using new_calls_trans[OF e2 ue] .
          from e3 pc3 n3 n2 pg res ad_id show ?thesis
            by (auto split: sum.splits)
        qed
      qed
    qed
  qed
qed

lemma try_create_loop_first:
  "try_create_loop L pub k title parent_id storage cp last_err (t0 # ts) w = (res, w') \<Longrightarrow>
     \<exists>oc rest. new_calls w w' = (CreatePage (space (cfg pub)) parent_id t0 storage, oc) # rest"
proof -
  assume run: "try_create_loop L pub k title parent_id storage cp last_err (t0 # ts) w = (res, w')"
  obtain r w1 where cr: "conf_create_page pub parent_id t0 storage w = (r, w1)"
    by (cases "conf_create_page pub parent_id t0 storage w")
  have e1: "ext (\<lambda>ev. True) w w1"
    using cr unfolding conf_create_page_def by (rule invoke_ext) simp
  have n1: "new_calls w w1 = [(CreatePage (space (cfg pub)) parent_id t0 storage,
                               case r of Inl e \<Rightarrow> Raised e | Inr x \<Rightarrow> ReturnedId x)]"
    using cr unfolding conf_create_page_def by (rule invoke_new_calls)
  have "ext (\<lambda>ev. True) w1 w'"
  proof -
    from run cr have "w' = w1
       \<or> (\<exists>ar. adopt_by_title_under_root pub t0 w1 = (ar, w'))
       \<or> (\<exists>ar w2. adopt_by_title_under_root pub t0 w1 = (ar, w2) \<and>
            ((\<exists>le. try_create_loop L pub k title parent_id storage cp le ts w2 = (res, w'))
             \<or> (\<exists>a ur. try_update L pub k title parent_id storage cp a w2 = (ur, w'))))"
      by (auto simp: and_then_def ret_def split: sum.splits exn.splits if_splits option.splits prod.splits)
    then show ?thesis
      using adopt_ext try_create_loop_run try_update_ext
      by (metis (no_types, lifting) ext_mono ext_refl ext_trans)
  qed
  from new_calls_trans[OF e1 this] n1 show ?thesis by simp
qed

subsection \<open>The branches of \<open>ensure_page\<close>\<close>

lemma new_calls_forget [simp]: "new_calls w (w'\<lparr>key_to_page := m\<rparr>) = new_calls w w'"
  by (simp add: new_calls_def)

lemma pages_created_forget [simp]: "pages_created (w'\<lparr>key_to_page := m\<rparr>) = pages_created w'"
  by (simp add: pages_created_def)

lemma ext_forget_same: "ext Q w w' \<Longrightarrow> ext Q w (w'\<lparr>key_to_page := key_to_page w\<rparr>)"
  by (simp add: ext_def)

text \<open>The branch for an existing page, ended by the label removal and the claim.\<close>

lemma existing_then_claim:
  assumes "and_then (update_and_mark L pub k title parent_id storage extra page_labels cp pid)
             (\<lambda>x. drop_label_and_claim pub k lb pid) w = (res, w')"
  shows "ext (on_page pid) w (w'\<lparr>key_to_page := key_to_page w\<rparr>)
       \<and> (\<forall>e. res = Inl e \<longrightarrow> key_to_page w' = key_to_page w)
       \<and> (\<forall>P. res = Inr P \<longrightarrow> P = pid \<and> key_to_page w' = (key_to_page w)(k \<mapsto> pid)
             \<and> (\<exists>oc. (DeleteLabel pid lb, oc) \<in> set (new_calls w w'))
             \<and> (\<exists>t \<in> set (title_candidates L k cp title).
                   (UpdatePage pid (space (cfg pub)) parent_id t storage, Returned) \<in> set (new_calls w w')))"
  using assms
proof (cases rule: and_then_cases)
  case (raised e)
  from update_and_mark_ext[OF raised(1)] raised(2) show ?thesis
    by (simp add: ext_def)
next
  case (returned x w1)
  note um = update_and_mark_ext[OF returned(1)]
  note dc = drop_label_and_claim_run[OF returned(2)]
  from dc obtain oc where oc: "calls w' = calls w1 @ [(DeleteLabel pid lb, oc)]" by blast
  have e2: "ext (on_page pid) w1 (w'\<lparr>key_to_page := key_to_page w1\<rparr>)"
    using dc oc by (simp add: ext_def on_page_def)
  have k1: "key_to_page w1 = key_to_page w"
    using um by (simp add: ext_def)
  have e: "ext (on_page pid) w (w'\<lparr>key_to_page := key_to_page w\<rparr>)"
    using ext_trans[OF um[THEN conjunct1] e2] k1 by simp
  have n: "new_calls w w' = new_calls w w1 @ [(DeleteLabel pid lb, oc)]"
    using new_calls_trans[OF um[THEN conjunct1] e2] oc by (simp add: new_calls_def)
  from um have "\<exists>t \<in> set (title_candidates L k cp title).
                   (UpdatePage pid (space (cfg pub)) parent_id t storage, Returned) \<in> set (new_calls w w1)"
    by simp
  with e n dc k1 show ?thesis
    by auto
qed

lemma ensure_page_primary_eq:
  assumes "if_truthy (key_to_page w k) = Some p"
  shows "ensure_page L pub k title parent_id storage extra pls cp w =
           and_then (update_and_mark L pub k title parent_id storage extra
                       (case pls of None \<Rightarrow> [] | Some ls \<Rightarrow> ls) cp p) (\<lambda>x. ret p) w"
  using assms by (simp add: ensure_page_def Let_def)

lemma ensure_page_legacy_eq:
  assumes "if_truthy (key_to_page w k) = None" "if_truthy (label_to_page w (label_for L k)) = Some l"
  shows "ensure_page L pub k title parent_id storage extra pls cp w =
           and_then (update_and_mark L pub k title parent_id storage extra
                       (case pls of None \<Rightarrow> [] | Some ls \<Rightarrow> ls) cp l)
             (\<lambda>x. drop_label_and_claim pub k (label_for L k) l) w"
  using assms by (simp add: ensure_page_def Let_def)

lemma ensure_page_lookup_eq:
  assumes "if_truthy (key_to_page w k) = None" "if_truthy (label_to_page w (label_for L k)) = None"
      and "adopt_by_title_under_root pub title w = (ar, w1)"
  shows "ensure_page L pub k title parent_id storage extra pls cp w =
     (case ar of
        Inl e \<Rightarrow> (Inl e, w1)
      | Inr adopted \<Rightarrow>
          (case if_truthy adopted of
             Some a \<Rightarrow>
               and_then (update_and_mark L pub k title parent_id storage extra
                           (case pls of None \<Rightarrow> [] | Some ls \<Rightarrow> ls) cp a)
                 (\<lambda>x. drop_label_and_claim pub k (label_for L k) a) w1
           | None \<Rightarrow>
               and_then (try_create L pub k title parent_id storage cp)
                 (\<lambda>created.
                    and_then (ensure_labels pub (fst created)
                                (managed_label pub # (case pls of None \<Rightarrow> [] | Some ls \<Rightarrow> ls)))
                      (\<lambda>x. and_then (write_source_meta L pub k (fst created) (snd created) extra)
                         (\<lambda>y. and_then (set_key_to_page k (fst created))
                            (\<lambda>z. ret (fst created))))) w1))"
  using assms by (simp add: ensure_page_def Let_def and_then_def split: sum.splits option.splits)

lemma ensure_page_primary:
  assumes p: "if_truthy (key_to_page w k) = Some p"
      and run: "ensure_page L pub k title parent_id storage extra pls cp w = (res, w')"
  shows "ext (on_page p) w w' \<and> raised_by_call w w' res
       \<and> (\<forall>P. res = Inr P \<longrightarrow> P = p
             \<and> (\<exists>t \<in> set (title_candidates L k cp title).
                   (UpdatePage p (space (cfg pub)) parent_id t storage, Returned) \<in> set (new_calls w w')))"
  using run[unfolded ensure_page_primary_eq[OF p]]
proof (cases rule: and_then_cases)
  case (raised e)
  from update_and_mark_ext[OF raised(1)] raised(2) show ?thesis
    by (simp add: raised_by_call_Inl)
next
  case (returned x w1)
  then have "w' = w1" "res = Inr p" by (auto simp: ret_def)
  with update_and_mark_ext[OF returned(1)] show ?thesis
    by (simp add: raised_by_call_Inr)
qed

text \<open>The tail of the create branch.\<close>

lemma created_then_claim:
  assumes "and_then (ensure_labels pub pid labels)
             (\<lambda>x. and_then (write_source_meta L pub k pid used extra)
                (\<lambda>y. and_then (set_key_to_page k pid) (\<lambda>z. ret pid))) w = (res, w')"
  shows "ext (on_page pid) w (w'\<lparr>key_to_page := key_to_page w\<rparr>)
       \<and> (\<forall>e. res = Inl e \<longrightarrow> key_to_page w' = key_to_page w)
       \<and> (\<forall>P. res = Inr P \<longrightarrow> P = pid \<and> key_to_page w' = (key_to_page w)(k \<mapsto> pid))"
  using assms
proof (cases rule: and_then_cases)
  case (raised e)
  from ensure_labels_ext[OF raised(1)] raised(2) show ?thesis
    by (simp add: ext_def)
next
  case (returned x w1)
  note e1 = ensure_labels_ext[OF returned(1), THEN conjunct1]
  from returned(2) show ?thesis
  proof (cases rule: and_then_cases)
    case (raised e)
    from write_source_meta_ext[OF raised(1)] e1 raised(2) show ?thesis
      by (auto simp: ext_def)
  next
    case (returned y w2)
    note e2 = write_source_meta_ext[OF returned(1), THEN conjunct1]
    from returned(2) have "w' = w2\<lparr>key_to_page := (key_to_page w2)(k \<mapsto> pid)\<rparr>" "res = Inr pid"
      by (auto simp: and_then_def set_key_to_page_def ret_def)
    with ext_trans[OF e1 e2] show ?thesis
      by (auto simp: ext_def)
  qed
qed

lemma try_create_run:
  assumes "try_create L pub k title parent_id storage cp w = (res, w')"
  shows "ext (\<lambda>ev. True) w w' \<and> pages_created w' \<le> pages_created w + 1
     \<and> (\<exists>oc. (CreatePage (space (cfg pub)) parent_id (hd (title_candidates L k cp title)) storage, oc)
              \<in> set (new_calls w w'))
     \<and> (\<forall>pid t. res = Inr (pid, t) \<longrightarrow>
          (\<exists>t'. (CreatePage (space (cfg pub)) parent_id t' storage, ReturnedId (Some pid))
                  \<in> set (new_calls w w'))
          \<or> (pid \<noteq> [] \<and> pages_created w' = pages_created w
              \<and> (\<exists>t' pg. (FindPageByTitle (space (cfg pub)) t', ReturnedPage (Some pg))
                            \<in> set (new_calls w w')
                          \<and> pj_id pg = pid \<and> docs_root_id (cfg pub) \<in> set (pj_ancestors pg))))"
proof -
  obtain t0 ts where c: "title_candidates L k cp title = t0 # ts"
    using title_candidates_nonempty[of L k cp title] by (cases "title_candidates L k cp title") auto
  from assms have run: "try_create_loop L pub k title parent_id storage cp None (t0 # ts) w = (res, w')"
    by (simp add: try_create_def c)
  from try_create_loop_first[OF run] c
  have first: "\<exists>oc. (CreatePage (space (cfg pub)) parent_id (hd (title_candidates L k cp title)) storage, oc)
              \<in> set (new_calls w w')"
    by auto
  from try_create_loop_run[OF run] first show ?thesis
    by blast
qed

text \<open>The create branch, from the state after the lookup by title.\<close>

lemma create_branch:
  assumes "and_then (try_create L pub k title parent_id storage cp)
             (\<lambda>created.
                and_then (ensure_labels pub (fst created) labels)
                  (\<lambda>x. and_then (write_source_meta L pub k (fst created) (snd created) extra)
                     (\<lambda>y. and_then (set_key_to_page k (fst created))
                        (\<lambda>z. ret (fst created))))) w = (res, w')"
  shows "ext (\<lambda>ev. True) w (w'\<lparr>key_to_page := key_to_page w\<rparr>)
     \<and> pages_created w' \<le> pages_created w + 1
     \<and> (\<exists>oc. (CreatePage (space (cfg pub)) parent_id (hd (title_candidates L k cp title)) storage, oc)
              \<in> set (new_calls w w'))
     \<and> (\<forall>e. res = Inl e \<longrightarrow> key_to_page w' = key_to_page w)
     \<and> (\<forall>P. res = Inr P \<longrightarrow> key_to_page w' = (key_to_page w)(k \<mapsto> P)
          \<and> ((\<exists>t'. (CreatePage (space (cfg pub)) parent_id t' storage, ReturnedId (Some P))
                  \<in> set (new_calls w w'))
             \<or> (P \<noteq> [] \<and> pages_created w' = pages_created w
              \<and> (\<exists>t' pg. (FindPageByTitle (space (cfg pub)) t', ReturnedPage (Some pg))
                            \<in> set (new_calls w w')
                          \<and> pj_id pg = P \<and> docs_root_id (cfg pub) \<in> set (pj_ancestors pg)))))"
  using assms
proof (cases rule: and_then_cases)
  case (raised e)
  from try_create_run[OF raised(1)] raised(2) show ?thesis
    by (simp add: ext_def)
next
  case (returned created w1)
  note tc = try_create_run[OF returned(1)]
  note cl = created_then_claim[OF returned(2)]
  have e1: "ext (\<lambda>ev. True) w w1" using tc by blast
  have e2: "ext (\<lambda>ev. True) w1 (w'\<lparr>key_to_page := key_to_page w1\<rparr>)"
    using cl by (blast intro: ext_mono)
  have k1: "key_to_page w1 = key_to_page w"
    using e1 by (simp add: ext_def)
  have e: "ext (\<lambda>ev. True) w (w'\<lparr>key_to_page := key_to_page w\<rparr>)"
    using ext_trans[OF e1 e2] k1 by simp
  have n: "new_calls w w' = new_calls w w1 @ new_calls w1 w'"
    using new_calls_trans[OF e1 e2] by simp
  have pc: "pages_created w' = pages_created w1"
    using ext_on_page_created[OF cl[THEN conjunct1]] by simp
  have sub: "set (new_calls w w1) \<subseteq> set (new_calls w w')"
    using n by auto
  have first: "\<exists>oc. (CreatePage (space (cfg pub)) parent_id (hd (title_candidates L k cp title)) storage, oc)
              \<in> set (new_calls w w')"
    using tc sub by blast
  have succ: "\<forall>P. res = Inr P \<longrightarrow> key_to_page w' = (key_to_page w)(k \<mapsto> P)
          \<and> ((\<exists>t'. (CreatePage (space (cfg pub)) parent_id t' storage, ReturnedId (Some P))
                  \<in> set (new_calls w w'))
             \<or> (P \<noteq> [] \<and> pages_created w' = pages_created w
              \<and> (\<exists>t' pg. (FindPageByTitle (space (cfg pub)) t', ReturnedPage (Some pg))
                            \<in> set (new_calls w w')
                          \<and> pj_id pg = P \<and> docs_root_id (cfg pub) \<in> set (pj_ancestors pg))))"
  proof (intro allI impI)
    fix P assume r: "res = Inr P"
    with cl have P: "P = fst created" and kp: "key_to_page w' = (key_to_page w1)(k \<mapsto> P)"
      by auto
    from tc have "(\<exists>t'. (CreatePage (space (cfg pub)) parent_id t' storage, ReturnedId (Some (fst created)))
                  \<in> set (new_calls w w1))
          \<or> (fst created \<noteq> [] \<and> pages_created w1 = pages_created w
              \<and> (\<exists>t' pg. (FindPageByTitle (space (cfg pub)) t', ReturnedPage (Some pg))
                            \<in> set (new_calls w w1)
                          \<and> pj_id pg = fst created \<and> docs_root_id (cfg pub) \<in> set (pj_ancestors pg)))"
      by (cases created) auto
    with sub pc P kp k1
    show "key_to_page w' = (key_to_page w)(k \<mapsto> P)
          \<and> ((\<exists>t'. (CreatePage (space (cfg pub)) parent_id t' storage, ReturnedId (Some P))
                  \<in> set (new_calls w w'))
             \<or> (P \<noteq> [] \<and> pages_created w' = pages_created w
              \<and> (\<exists>t' pg. (FindPageByTitle (space (cfg pub)) t', ReturnedPage (Some pg))
                            \<in> set (new_calls w w')
                          \<and> pj_id pg = P \<and> docs_root_id (cfg pub) \<in> set (pj_ancestors pg))))"
      by (simp only:) blast
  qed
  have b: "pages_created w' \<le> pages_created w + 1"
    using pc tc[THEN conjunct2, THEN conjunct1] by simp
  have f: "\<forall>e. res = Inl e \<longrightarrow> key_to_page w' = key_to_page w"
    using cl[THEN conjunct2, THEN conjunct1] k1 by simp
  from e b first f succ show ?thesis
    by (intro conjI)
qed

lemma if_truthy_Some: "if_truthy v = Some x \<longleftrightarrow> v = Some x \<and> x \<noteq> []"
  by (auto simp: if_truthy_def split: option.splits)

text \<open>What every run of \<open>ensure_page\<close> does to the state.\<close>

lemma ensure_page_frame:
  assumes run: "ensure_page L pub k title parent_id storage extra pls cp w = (res, w')"
  shows "ext (\<lambda>ev. True) w (w'\<lparr>key_to_page := key_to_page w\<rparr>)
       \<and> pages_created w' \<le> pages_created w + 1
       \<and> (\<forall>e. res = Inl e \<longrightarrow> key_to_page w' = key_to_page w)
       \<and> (\<forall>P. res = Inr P \<longrightarrow> key_to_page w' = (key_to_page w)(k \<mapsto> P))"
proof (cases "if_truthy (key_to_page w k)")
  case (Some p)
  note pr = ensure_page_primary[OF Some run]
  from Some have kp: "(key_to_page w)(k \<mapsto> p) = key_to_page w"
    by (auto simp: if_truthy_Some)
  have kk: "key_to_page w' = key_to_page w" using pr by (simp add: ext_def)
  have a: "ext (\<lambda>ev. True) w (w'\<lparr>key_to_page := key_to_page w\<rparr>)"
    using pr[THEN conjunct1] by (blast intro: ext_mono ext_forget_same)
  have b: "pages_created w' \<le> pages_created w + 1"
    using ext_on_page_created[OF pr[THEN conjunct1]] by simp
  have c: "\<forall>P. res = Inr P \<longrightarrow> key_to_page w' = (key_to_page w)(k \<mapsto> P)"
    using pr[THEN conjunct2, THEN conjunct2] kp kk by auto
  from a b c kk show ?thesis
    by simp
next
  case None
  show ?thesis
  proof (cases "if_truthy (label_to_page w (label_for L k))")
    case (Some l)
    note lg = existing_then_claim[OF run[unfolded ensure_page_legacy_eq[OF None Some]]]
    have a: "ext (\<lambda>ev. True) w (w'\<lparr>key_to_page := key_to_page w\<rparr>)"
      using lg[THEN conjunct1] by (blast intro: ext_mono)
    have b: "pages_created w' \<le> pages_created w + 1"
      using ext_on_page_created[OF lg[THEN conjunct1]] by simp
    have c: "\<forall>P. res = Inr P \<longrightarrow> key_to_page w' = (key_to_page w)(k \<mapsto> P)"
      using lg[THEN conjunct2, THEN conjunct2] by auto
    from a b c lg[THEN conjunct2, THEN conjunct1] show ?thesis
      by (intro conjI)
  next
    case None2: None
    obtain ar w1 where ad: "adopt_by_title_under_root pub title w = (ar, w1)"
      by (cases "adopt_by_title_under_root pub title w")
    note ae = adopt_ext[OF ad]
    note eq = run[unfolded ensure_page_lookup_eq[OF None None2 ad]]
    have e1: "ext (\<lambda>ev. True) w w1" using ae by (blast intro: ext_mono)
    have k1: "key_to_page w1 = key_to_page w" using e1 by (simp add: ext_def)
    have pc1: "pages_created w1 = pages_created w"
      using pages_created_le_mono[OF ae[THEN conjunct1]] by simp
    show ?thesis
    proof (cases ar)
      case (Inl e)
      with eq have "res = Inl e" "w' = w1" by auto
      with e1 pc1 k1 show ?thesis by (simp add: ext_def)
    next
      case (Inr adopted)
      show ?thesis
      proof (cases "if_truthy adopted")
        case (Some a)
        with eq Inr have r: "and_then (update_and_mark L pub k title parent_id storage extra
                           (case pls of None \<Rightarrow> [] | Some ls \<Rightarrow> ls) cp a)
                 (\<lambda>x. drop_label_and_claim pub k (label_for L k) a) w1 = (res, w')"
          by simp
        note lg = existing_then_claim[OF r]
        have e2: "ext (\<lambda>ev. True) w1 (w'\<lparr>key_to_page := key_to_page w1\<rparr>)"
          using lg by (blast intro: ext_mono)
        have a: "ext (\<lambda>ev. True) w (w'\<lparr>key_to_page := key_to_page w\<rparr>)"
          using ext_trans[OF e1 e2] k1 by simp
        have b: "pages_created w' \<le> pages_created w + 1"
          using ext_on_page_created[OF lg[THEN conjunct1]] pc1 by simp
        have c: "\<forall>P. res = Inr P \<longrightarrow> key_to_page w' = (key_to_page w)(k \<mapsto> P)"
          using lg[THEN conjunct2, THEN conjunct2] k1 by auto
        have d: "\<forall>e. res = Inl e \<longrightarrow> key_to_page w' = key_to_page w"
          using lg[THEN conjunct2, THEN conjunct1] k1 by simp
        from a b c d show ?thesis
          by (intro conjI)
      next
        case None3: None
        with eq Inr have r: "and_then (try_create L pub k title parent_id storage cp)
                 (\<lambda>created.
                    and_then (ensure_labels pub (fst created)
                                (managed_label pub # (case pls of None \<Rightarrow> [] | Some ls \<Rightarrow> ls)))
                      (\<lambda>x. and_then (write_source_meta L pub k (fst created) (snd created) extra)
                         (\<lambda>y. and_then (set_key_to_page k (fst created))
                            (\<lambda>z. ret (fst created))))) w1 = (res, w')"
          by simp
        note cb = create_branch[OF r]
        have a: "ext (\<lambda>ev. True) w (w'\<lparr>key_to_page := key_to_page w\<rparr>)"
          using ext_trans[OF e1 cb[THEN conjunct1]] k1 by simp
        have b: "pages_created w' \<le> pages_created w + 1"
          using cb[THEN conjunct2, THEN conjunct1] pc1 by simp
        have c: "\<forall>P. res = Inr P \<longrightarrow> key_to_page w' = (key_to_page w)(k \<mapsto> P)"
          using cb[THEN conjunct2, THEN conjunct2, THEN conjunct2, THEN conjunct2] k1 by simp
        have d: "\<forall>e. res = Inl e \<longrightarrow> key_to_page w' = key_to_page w"
          using cb[THEN conjunct2, THEN conjunct2, THEN conjunct2, THEN conjunct1] k1 by simp
        from a b c d show ?thesis
          by (intro conjI)
      qed
    qed
  qed
qed

lemma existing_then_claim_order:
  assumes "and_then (update_and_mark L pub k title parent_id storage extra page_labels cp pid)
             (\<lambda>x. drop_label_and_claim pub k lb pid) w = (Inr P, w')"
  shows "\<exists>evs oc. new_calls w w' = evs @ [(DeleteLabel pid lb, oc)]
           \<and> (\<exists>t \<in> set (title_candidates L k cp title).
                 (UpdatePage pid (space (cfg pub)) parent_id t storage, Returned) \<in> set evs)"
  using assms
proof (cases rule: and_then_cases)
  case (raised e)
  then show ?thesis by simp
next
  case (returned x w1)
  note um = update_and_mark_ext[OF returned(1)]
  note dc = drop_label_and_claim_run[OF returned(2)]
  from dc obtain oc where oc: "calls w' = calls w1 @ [(DeleteLabel pid lb, oc)]" by blast
  from um obtain evs where evs: "calls w1 = calls w @ evs" by (auto simp: ext_def)
  have n: "new_calls w w' = new_calls w w1 @ [(DeleteLabel pid lb, oc)]"
    using oc evs by (simp add: new_calls_def)
  from um have "\<exists>t \<in> set (title_candidates L k cp title).
                   (UpdatePage pid (space (cfg pub)) parent_id t storage, Returned) \<in> set (new_calls w w1)"
    by simp
  with n show ?thesis by blast
qed

lemma ensure_page_legacy:
  assumes k0: "if_truthy (key_to_page w k) = None"
      and l: "if_truthy (label_to_page w (label_for L k)) = Some l"
      and run: "ensure_page L pub k title parent_id storage extra pls cp w = (res, w')"
  shows "(\<forall>ev \<in> set (new_calls w w'). on_page l ev)
       \<and> (\<forall>P. res = Inr P \<longrightarrow> P = l \<and> key_to_page w' = (key_to_page w)(k \<mapsto> l)
             \<and> (\<exists>evs oc. new_calls w w' = evs @ [(DeleteLabel l (label_for L k), oc)]
                   \<and> (\<exists>t \<in> set (title_candidates L k cp title).
                         (UpdatePage l (space (cfg pub)) parent_id t storage, Returned) \<in> set evs)))"
proof -
  note eq = ensure_page_legacy_eq[OF k0 l, of pub title parent_id storage extra pls cp]
  from run eq have r: "and_then (update_and_mark L pub k title parent_id storage extra
                       (case pls of None \<Rightarrow> [] | Some ls \<Rightarrow> ls) cp l)
             (\<lambda>x. drop_label_and_claim pub k (label_for L k) l) w = (res, w')" by simp
  note ec = existing_then_claim[OF r]
  have a: "\<forall>ev \<in> set (new_calls w w'). on_page l ev"
    using ext_new_calls[OF ec[THEN conjunct1]] by simp
  have b: "P = l \<and> key_to_page w' = (key_to_page w)(k \<mapsto> l)
             \<and> (\<exists>evs oc. new_calls w w' = evs @ [(DeleteLabel l (label_for L k), oc)]
                   \<and> (\<exists>t \<in> set (title_candidates L k cp title).
                         (UpdatePage l (space (cfg pub)) parent_id t storage, Returned) \<in> set evs))"
    if "res = Inr P" for P
  proof -
    from r that have r': "and_then (update_and_mark L pub k title parent_id storage extra
                       (case pls of None \<Rightarrow> [] | Some ls \<Rightarrow> ls) cp l)
             (\<lambda>x. drop_label_and_claim pub k (label_for L k) l) w = (Inr P, w')" by simp
    from ec that have "P = l" "key_to_page w' = (key_to_page w)(k \<mapsto> l)" by simp_all
    with existing_then_claim_order[OF r'] show ?thesis by simp
  qed
  from a b show ?thesis by blast
qed

lemma ensure_page_adopted:
  assumes k0: "if_truthy (key_to_page w k) = None"
      and l0: "if_truthy (label_to_page w (label_for L k)) = None"
      and ad: "adopt_by_title_under_root pub title w = (Inr (Some a), w1)"
      and a: "a \<noteq> []"
      and run: "ensure_page L pub k title parent_id storage extra pls cp w = (res, w')"
  shows "pages_created w' = pages_created w
       \<and> (\<forall>ev \<in> set (new_calls w1 w'). on_page a ev)
       \<and> new_calls w w' = new_calls w w1 @ new_calls w1 w'
       \<and> (\<forall>P. res = Inr P \<longrightarrow> P = a \<and> key_to_page w' = (key_to_page w)(k \<mapsto> a)
             \<and> (\<exists>evs oc. new_calls w1 w' = evs @ [(DeleteLabel a (label_for L k), oc)]
                   \<and> (\<exists>t \<in> set (title_candidates L k cp title).
                         (UpdatePage a (space (cfg pub)) parent_id t storage, Returned) \<in> set evs)))"
proof -
  have ia: "if_truthy (Some a) = Some a" using a by (simp add: if_truthy_def)
  note eq = ensure_page_lookup_eq[OF k0 l0 ad, of parent_id storage extra pls cp]
  from run eq ia have r: "and_then (update_and_mark L pub k title parent_id storage extra
                       (case pls of None \<Rightarrow> [] | Some ls \<Rightarrow> ls) cp a)
             (\<lambda>x. drop_label_and_claim pub k (label_for L k) a) w1 = (res, w')" by simp
  note ae = adopt_ext[OF ad, THEN conjunct1]
  note ec = existing_then_claim[OF r]
  have k1: "key_to_page w1 = key_to_page w" using ae by (simp add: ext_def)
  have e1: "ext (on_page a) w1 (w'\<lparr>key_to_page := key_to_page w1\<rparr>)" using ec by simp
  have p1: "pages_created w1 = pages_created w"
    using pages_created_le_mono[OF ae] by simp
  have p2: "pages_created w' = pages_created w1"
    using ext_on_page_created[OF e1] by simp
  have n: "new_calls w w' = new_calls w w1 @ new_calls w1 w'"
    using new_calls_trans[OF ae e1] by simp
  have c: "\<forall>ev \<in> set (new_calls w1 w'). on_page a ev"
    using ext_new_calls[OF e1] by simp
  have b: "P = a \<and> key_to_page w' = (key_to_page w)(k \<mapsto> a)
             \<and> (\<exists>evs oc. new_calls w1 w' = evs @ [(DeleteLabel a (label_for L k), oc)]
                   \<and> (\<exists>t \<in> set (title_candidates L k cp title).
                         (UpdatePage a (space (cfg pub)) parent_id t storage, Returned) \<in> set evs))"
    if "res = Inr P" for P
  proof -
    from r that have r': "and_then (update_and_mark L pub k title parent_id storage extra
                       (case pls of None \<Rightarrow> [] | Some ls \<Rightarrow> ls) cp a)
             (\<lambda>x. drop_label_and_claim pub k (label_for L k) a) w1 = (Inr P, w')" by simp
    from ec that k1 have "P = a" "key_to_page w' = (key_to_page w)(k \<mapsto> a)" by simp_all
    with existing_then_claim_order[OF r'] show ?thesis by simp
  qed
  have pc: "pages_created w' = pages_created w" using p1 p2 by simp
  have b': "\<forall>P. res = Inr P \<longrightarrow> P = a \<and> key_to_page w' = (key_to_page w)(k \<mapsto> a)
             \<and> (\<exists>evs oc. new_calls w1 w' = evs @ [(DeleteLabel a (label_for L k), oc)]
                   \<and> (\<exists>t \<in> set (title_candidates L k cp title).
                         (UpdatePage a (space (cfg pub)) parent_id t storage, Returned) \<in> set evs))"
    using b by blast
  from pc c n b' show ?thesis by (intro conjI)
qed

lemma ensure_page_created:
  assumes k0: "if_truthy (key_to_page w k) = None"
      and l0: "if_truthy (label_to_page w (label_for L k)) = None"
      and ad: "adopt_by_title_under_root pub title w = (Inr ad_res, w1)"
      and a: "if_truthy ad_res = None"
      and run: "ensure_page L pub k title parent_id storage extra pls cp w = (res, w')"
  shows "(\<exists>oc. (CreatePage (space (cfg pub)) parent_id (hd (title_candidates L k cp title)) storage, oc)
              \<in> set (new_calls w w'))
     \<and> (\<forall>P. res = Inr P \<longrightarrow> key_to_page w' = (key_to_page w)(k \<mapsto> P)
          \<and> ((\<exists>t'. (CreatePage (space (cfg pub)) parent_id t' storage, ReturnedId (Some P))
                  \<in> set (new_calls w w'))
             \<or> (P \<noteq> [] \<and> pages_created w' = pages_created w
              \<and> (\<exists>t' pg. (FindPageByTitle (space (cfg pub)) t', ReturnedPage (Some pg))
                            \<in> set (new_calls w w')
                          \<and> pj_id pg = P \<and> docs_root_id (cfg pub) \<in> set (pj_ancestors pg)))))"
proof -
  note eq = ensure_page_lookup_eq[OF k0 l0 ad, of parent_id storage extra pls cp]
  from run eq a have r: "and_then (try_create L pub k title parent_id storage cp)
                 (\<lambda>created.
                    and_then (ensure_labels pub (fst created)
                                (managed_label pub # (case pls of None \<Rightarrow> [] | Some ls \<Rightarrow> ls)))
                      (\<lambda>x. and_then (write_source_meta L pub k (fst created) (snd created) extra)
                         (\<lambda>y. and_then (set_key_to_page k (fst created))
                            (\<lambda>z. ret (fst created))))) w1 = (res, w')" by simp
  note cb = create_branch[OF r]
  note ae = adopt_ext[OF ad, THEN conjunct1]
  have k1: "key_to_page w1 = key_to_page w" using ae by (simp add: ext_def)
  have e1: "ext (\<lambda>ev. True) w1 (w'\<lparr>key_to_page := key_to_page w1\<rparr>)" using cb by simp
  have p1: "pages_created w1 = pages_created w"
    using pages_created_le_mono[OF ae] by simp
  have n: "new_calls w w' = new_calls w w1 @ new_calls w1 w'"
    using new_calls_trans[OF ae e1] by simp
  then have sub: "set (new_calls w1 w') \<subseteq> set (new_calls w w')" by simp
  have c1: "\<exists>oc. (CreatePage (space (cfg pub)) parent_id (hd (title_candidates L k cp title)) storage, oc)
              \<in> set (new_calls w w')"
    using cb[THEN conjunct2, THEN conjunct2, THEN conjunct1] sub by blast
  have c2: "key_to_page w' = (key_to_page w)(k \<mapsto> P)
          \<and> ((\<exists>t'. (CreatePage (space (cfg pub)) parent_id t' storage, ReturnedId (Some P))
                  \<in> set (new_calls w w'))
             \<or> (P \<noteq> [] \<and> pages_created w' = pages_created w
              \<and> (\<exists>t' pg. (FindPageByTitle (space (cfg pub)) t', ReturnedPage (Some pg))
                            \<in> set (new_calls w w')
                          \<and> pj_id pg = P \<and> docs_root_id (cfg pub) \<in> set (pj_ancestors pg))))"
    if "res = Inr P" for P
  proof -
    from cb that have kk: "key_to_page w' = (key_to_page w1)(k \<mapsto> P)" by simp
    from cb that have d: "(\<exists>t'. (CreatePage (space (cfg pub)) parent_id t' storage, ReturnedId (Some P))
                  \<in> set (new_calls w1 w'))
             \<or> (P \<noteq> [] \<and> pages_created w' = pages_created w1
              \<and> (\<exists>t' pg. (FindPageByTitle (space (cfg pub)) t', ReturnedPage (Some pg))
                            \<in> set (new_calls w1 w')
                          \<and> pj_id pg = P \<and> docs_root_id (cfg pub) \<in> set (pj_ancestors pg)))"
      by simp
    from d show ?thesis
    proof
      assume "\<exists>t'. (CreatePage (space (cfg pub)) parent_id t' storage, ReturnedId (Some P))
                  \<in> set (new_calls w1 w')"
      with sub kk k1 show ?thesis by auto
    next
      assume x: "P \<noteq> [] \<and> pages_created w' = pages_created w1
              \<and> (\<exists>t' pg. (FindPageByTitle (space (cfg pub)) t', ReturnedPage (Some pg))
                            \<in> set (new_calls w1 w')
                          \<and> pj_id pg = P \<and> docs_root_id (cfg pub) \<in> set (pj_ancestors pg))"
      then obtain t' pg where "(FindPageByTitle (space (cfg pub)) t', ReturnedPage (Some pg))
                            \<in> set (new_calls w1 w')" "pj_id pg = P" "docs_root_id (cfg pub) \<in> set (pj_ancestors pg)"
        by blast
      with sub have "\<exists>t' pg. (FindPageByTitle (space (cfg pub)) t', ReturnedPage (Some pg))
                            \<in> set (new_calls w w')
                          \<and> pj_id pg = P \<and> docs_root_id (cfg pub) \<in> set (pj_ancestors pg)" by blast
      with x kk k1 p1 show ?thesis by simp
    qed
  qed
  from c1 c2 show ?thesis by blast
qed

lemma adopt_found:
  assumes en: "opt_get (options (cfg pub)) ''adopt_existing_by_title_under_root'' True"
      and f: "find_page_by_title (conf pub) (space (cfg pub)) title (remote w) = (Inr fres, r')"
  shows "\<exists>w1. adopt_by_title_under_root pub title w =
           (Inr (case fres of None \<Rightarrow> None
                 | Some pg \<Rightarrow> if docs_root_id (cfg pub) \<in> set (pj_ancestors pg)
                              then Some (pj_id pg) else None), w1)
         \<and> new_calls w w1 = [(FindPageByTitle (space (cfg pub)) title, ReturnedPage fres)]"
  using adopt_enabled[OF en f] by (cases fres) (simp_all add: new_calls_def)


subsection \<open>Repeated calls\<close>

lemma republish_claimed:
  assumes "if_truthy (key_to_page w k) = Some P" "republish L pub k as w = (res, w')"
  shows "ext (on_page P) w w' \<and> (\<forall>pids. res = Inr pids \<longrightarrow> pids = replicate (length as) P)"
  using assms
proof (induction as arbitrary: w res w')
  case Nil
  then show ?case by (auto simp: ext_refl)
next
  case (Cons a as)
  obtain r w1 where ep: "ensure_page L pub k (a_title a) (a_parent_id a) (a_storage a) (a_extra_labels a)
             (a_page_labels a) (a_collision_prefix a) w = (r, w1)"
    by (cases "ensure_page L pub k (a_title a) (a_parent_id a) (a_storage a) (a_extra_labels a)
             (a_page_labels a) (a_collision_prefix a) w")
  note pr = ensure_page_primary[OF Cons.prems(1) ep]
  show ?case
  proof (cases r)
    case (Inl e)
    with Cons.prems(2) ep have "res = Inl e" "w' = w1" by auto
    with pr show ?thesis by simp
  next
    case (Inr pid)
    with pr have pid: "pid = P" by simp
    obtain r2 w2 where rp: "republish L pub k as w1 = (r2, w2)"
      by (cases "republish L pub k as w1")
    have "key_to_page w1 = key_to_page w" using pr by (simp add: ext_def)
    with Cons.prems(1) have "if_truthy (key_to_page w1 k) = Some P" by simp
    note ih = Cons.IH[OF this rp]
    from Cons.prems(2) ep Inr rp have w': "w' = w2"
      and res: "res = (case r2 of Inl e \<Rightarrow> Inl e | Inr pids \<Rightarrow> Inr (pid # pids))"
      by (auto split: sum.splits prod.splits)
    have "ext (on_page P) w w'"
      using pr ih w' by (blast intro: ext_trans)
    moreover have "\<forall>pids. res = Inr pids \<longrightarrow> pids = replicate (length (a # as)) P"
      using res ih pid by (auto split: sum.splits prod.splits)
    ultimately show ?thesis by simp
  qed
qed

lemma republish_any:
  assumes "republish L pub k as w = (Inr pids, w')" "[] \<notin> set pids"
  shows "pages_created w' \<le> pages_created w + 1 \<and> (\<exists>Q. pids = replicate (length as) Q)"
proof (cases as)
  case Nil
  with assms show ?thesis by auto
next
  case (Cons a as')
  obtain r w1 where ep: "ensure_page L pub k (a_title a) (a_parent_id a) (a_storage a) (a_extra_labels a)
             (a_page_labels a) (a_collision_prefix a) w = (r, w1)"
    by (cases "ensure_page L pub k (a_title a) (a_parent_id a) (a_storage a) (a_extra_labels a)
             (a_page_labels a) (a_collision_prefix a) w")
  from assms(1) Cons ep obtain pid pids' where r: "r = Inr pid"
    and rp: "republish L pub k as' w1 = (Inr pids', w')" and pids: "pids = pid # pids'"
    by (auto split: sum.splits prod.splits)
  note fr = ensure_page_frame[OF ep]
  from fr r have "key_to_page w1 k = Some pid" by simp
  moreover from assms(2) pids have "pid \<noteq> []" by auto
  ultimately have "if_truthy (key_to_page w1 k) = Some pid"
    by (simp add: if_truthy_Some)
  note rc = republish_claimed[OF this rp]
  have "pages_created w' = pages_created w1"
    using ext_on_page_created[OF rc[THEN conjunct1]] .
  moreover have "pids = replicate (length as) pid"
    using rc pids Cons by simp
  ultimately show ?thesis
    using fr by auto
qed


subsection \<open>The runs of the examples\<close>

lemmas run_defs = ensure_page_def update_and_mark_def try_update_def title_candidates_def
  ensure_labels_def write_source_meta_def drop_label_and_claim_def adopt_by_title_under_root_def
  try_create_def set_key_to_page_def and_then_def ret_def attempt_def invoke_def
  conf_create_page_def conf_update_page_def conf_add_labels_def conf_put_property_def
  conf_delete_label_def conf_find_page_by_title_def if_truthy_def opt_get_def label_for_def
  PROPERTY_KEY_def VISIBLE_META_LABELS_def is_title_exists_def Let_def

lemmas test_defs = test_pub_def test_cfg_def FakeConfluence_def fake_init_def world_init_def
  test_lib_def sha1_examples_def ascii_lower_def title_exists_error_def test_args_def
  test_key_def ensure_test_def world_claimed_def world_legacy_def world_adoptable_def
  hello_page_def republish_test_def

lemma ensure_test_claimed: "fst (ensure_test world_claimed) = Inr (u ''777'')"
  by (simp add: run_defs test_defs str_defs)

lemma ensure_test_legacy: "fst (ensure_test world_legacy) = Inr (u ''555'')"
  by (simp add: run_defs test_defs str_defs)

lemma ensure_test_adoptable: "fst (ensure_test world_adoptable) = Inr (u ''900'')"
  by (simp add: run_defs test_defs str_defs)

lemma ensure_test_init: "fst (ensure_test world_init) = Inr (u ''new:1'')"
  by (simp add: run_defs test_defs str_defs)

lemma republish_test_ids: "fst republish_test = Inr [u ''new:1'', u ''new:1'', u ''new:1'']"
  by (simp add: run_defs test_defs str_defs)

lemma test_label: "label_for test_lib test_key = u ''src-b8ff4d9be1d4''"
  by (simp add: label_for_def test_defs str_defs)


section \<open>Idempotence of publishing\<close>

text \<open>
  C1. Let the primary index map the key to a page id \<open>P\<close> (a non-empty string,
  as every id that \<open>ensure_page\<close> has returned from a remote page is). Then a
  call of \<open>ensure_page\<close> with that key returns \<open>P\<close>, or ends with an exception
  that one of its calls on the client raised; it leaves the index as it is,
  creates no page, makes calls on the page \<open>P\<close> only, and when it returns it has
  updated \<open>P\<close> under one of the candidate titles. So any number of further calls
  with that key return \<open>P\<close> each time and create no page; and any number of calls
  with one key from any state, when they all return ids, return one and the same
  id and create at most one page.
\<close>

theorem republish_idempotent:
  "(key_to_page w k = Some P \<and> P \<noteq> []
      \<and> ensure_page L pub k title parent_id storage extra pls cp w = (res, w') \<longrightarrow>
       (res = Inr P \<or> (\<exists>e c. res = Inl e \<and> (c, Raised e) \<in> set (new_calls w w')))
     \<and> key_to_page w' = key_to_page w \<and> pages_created w' = pages_created w
     \<and> (\<forall>ev \<in> set (new_calls w w'). on_page P ev)
     \<and> (res = Inr P \<longrightarrow>
           (\<exists>t \<in> set (title_candidates L k cp title).
               (UpdatePage P (space (cfg pub)) parent_id t storage, Returned) \<in> set (new_calls w w'))))
   \<and> (key_to_page w k = Some P \<and> P \<noteq> [] \<and> republish L pub k as w = (rs, w2) \<longrightarrow>
       pages_created w2 = pages_created w \<and> key_to_page w2 = key_to_page w
       \<and> (\<forall>pids. rs = Inr pids \<longrightarrow> pids = replicate (length as) P)
       \<and> (\<forall>ev \<in> set (new_calls w w2). on_page P ev))
   \<and> (\<forall>pids. republish L pub k as w = (Inr pids, w2) \<and> [] \<notin> set pids \<longrightarrow>
         pages_created w2 \<le> pages_created w + 1 \<and> (\<exists>Q. pids = replicate (length as) Q))"
proof (intro conjI impI allI)
  assume a: "key_to_page w k = Some P \<and> P \<noteq> []
      \<and> ensure_page L pub k title parent_id storage extra pls cp w = (res, w')"
  then have t: "if_truthy (key_to_page w k) = Some P" by (simp add: if_truthy_Some)
  from a have run: "ensure_page L pub k title parent_id storage extra pls cp w = (res, w')" by simp
  note pr = ensure_page_primary[OF t run]
  show "res = Inr P \<or> (\<exists>e c. res = Inl e \<and> (c, Raised e) \<in> set (new_calls w w'))"
    using pr by (cases res) (auto simp: raised_by_call_Inl)
  show "key_to_page w' = key_to_page w" using pr by (simp add: ext_def)
  show "pages_created w' = pages_created w" using ext_on_page_created[OF pr[THEN conjunct1]] .
  show "\<forall>ev \<in> set (new_calls w w'). on_page P ev" using ext_new_calls[OF pr[THEN conjunct1]] by simp
  show "\<exists>t \<in> set (title_candidates L k cp title).
               (UpdatePage P (space (cfg pub)) parent_id t storage, Returned) \<in> set (new_calls w w')"
    if "res = Inr P" using pr that by simp
next
  assume a: "key_to_page w k = Some P \<and> P \<noteq> [] \<and> republish L pub k as w = (rs, w2)"
  then have t: "if_truthy (key_to_page w k) = Some P" by (simp add: if_truthy_Some)
  from a have run: "republish L pub k as w = (rs, w2)" by simp
  note rc = republish_claimed[OF t run]
  show "pages_created w2 = pages_created w" using ext_on_page_created[OF rc[THEN conjunct1]] .
  show "key_to_page w2 = key_to_page w" using rc by (simp add: ext_def)
  show "\<forall>ev \<in> set (new_calls w w2). on_page P ev" using ext_new_calls[OF rc[THEN conjunct1]] by simp
  show "pids = replicate (length as) P" if "rs = Inr pids" for pids using rc that by simp
next
  fix pids
  assume a: "republish L pub k as w = (Inr pids, w2) \<and> [] \<notin> set pids"
  then have r: "republish L pub k as w = (Inr pids, w2)" and n: "[] \<notin> set pids" by simp_all
  from republish_any[OF r n]
  show "pages_created w2 \<le> pages_created w + 1" and "\<exists>Q. pids = replicate (length as) Q"
    by simp_all
qed

theorem republish_idempotent_witness:
  "key_to_page world_claimed test_key = Some (u ''777'')
   \<and> fst (ensure_test world_claimed) = Inr (u ''777'')
   \<and> key_to_page (snd (ensure_test world_claimed)) = key_to_page world_claimed
   \<and> pages_created (snd (ensure_test world_claimed)) = pages_created world_claimed
   \<and> fst republish_test = Inr [u ''new:1'', u ''new:1'', u ''new:1'']
   \<and> pages_created (snd republish_test) \<le> pages_created world_init + 1"
proof -
  have h1: "key_to_page world_claimed test_key = Some (u ''777'')" "u ''777'' \<noteq> []"
    by (simp_all add: world_claimed_def u_def)
  have h2: "ensure_page test_lib test_pub test_key (u ''Hello'') (u ''100'') (u ''<p>x</p>'')
                     [u ''md''] None (Some (u ''DOCS'')) world_claimed
            = (fst (ensure_test world_claimed), snd (ensure_test world_claimed))"
    by (simp add: ensure_test_def)
  have h3: "republish test_lib test_pub test_key [test_args, test_args, test_args] world_init
            = (Inr [u ''new:1'', u ''new:1'', u ''new:1''], snd republish_test)"
    using republish_test_ids by (simp add: republish_test_def prod_eq_iff)
  have h4: "[] \<notin> set [u ''new:1'', u ''new:1'', u ''new:1'']"
    by (simp add: u_def)
  note t = republish_idempotent[where w = world_claimed and k = test_key and P = "u ''777''"
      and L = test_lib and pub = test_pub and title = "u ''Hello''" and parent_id = "u ''100''"
      and storage = "u ''<p>x</p>''" and extra = "[u ''md'']" and pls = None
      and cp = "Some (u ''DOCS'')" and res = "fst (ensure_test world_claimed)"
      and w' = "snd (ensure_test world_claimed)", THEN conjunct1]
  from t h1 h2 have a: "key_to_page (snd (ensure_test world_claimed)) = key_to_page world_claimed"
    "pages_created (snd (ensure_test world_claimed)) = pages_created world_claimed"
    by simp_all
  note t2 = republish_idempotent[where w = world_init and k = test_key
      and L = test_lib and pub = test_pub and as = "[test_args, test_args, test_args]"
      and ?w2.0 = "snd republish_test", THEN conjunct2, THEN conjunct2]
  from t2 h3 h4 have b: "pages_created (snd republish_test) \<le> pages_created world_init + 1"
    by blast
  from h1 ensure_test_claimed a republish_test_ids b show ?thesis by simp
qed

section \<open>The primary index after a successful call\<close>

text \<open>
  C10. Whenever \<open>ensure_page\<close> returns a page id \<open>P\<close> for a key, whichever
  branch it took, the primary index maps the key to \<open>P\<close> at return and is
  otherwise unchanged, as are the two other indexes. Then, \<open>P\<close> being a
  non-empty string, every later call with that key is the primary branch: the
  update of \<open>P\<close>, with calls on \<open>P\<close> only, no page created, the index kept, and
  \<open>P\<close> returned.
\<close>

theorem ensure_page_installs_key:
  assumes run: "ensure_page L pub k title parent_id storage extra pls cp w = (Inr P, w')"
  shows "key_to_page w' k = Some P
       \<and> key_to_page w' = (key_to_page w)(k \<mapsto> P)
       \<and> label_to_page w' = label_to_page w \<and> path_to_page w' = path_to_page w
       \<and> (P \<noteq> [] \<longrightarrow>
            (\<forall>title2 parent2 storage2 extra2 pls2 cp2 res2 w2.
               ensure_page L pub k title2 parent2 storage2 extra2 pls2 cp2 w' = (res2, w2) \<longrightarrow>
                 ensure_page L pub k title2 parent2 storage2 extra2 pls2 cp2 w'
                   = and_then (update_and_mark L pub k title2 parent2 storage2 extra2
                                 (case pls2 of None \<Rightarrow> [] | Some ls \<Rightarrow> ls) cp2 P)
                       (\<lambda>x. ret P) w'
                 \<and> (\<forall>ev \<in> set (new_calls w' w2). on_page P ev)
                 \<and> pages_created w2 = pages_created w'
                 \<and> key_to_page w2 = key_to_page w'
                 \<and> (\<forall>P2. res2 = Inr P2 \<longrightarrow> P2 = P)))"
proof -
  note fr = ensure_page_frame[OF run]
  have k: "key_to_page w' = (key_to_page w)(k \<mapsto> P)" using fr by simp
  then have k': "key_to_page w' k = Some P" by simp
  have lp: "label_to_page w' = label_to_page w" "path_to_page w' = path_to_page w"
    using fr by (simp_all add: ext_def)
  have later: "ensure_page L pub k title2 parent2 storage2 extra2 pls2 cp2 w'
                   = and_then (update_and_mark L pub k title2 parent2 storage2 extra2
                                 (case pls2 of None \<Rightarrow> [] | Some ls \<Rightarrow> ls) cp2 P)
                       (\<lambda>x. ret P) w'
                 \<and> (\<forall>ev \<in> set (new_calls w' w2). on_page P ev)
                 \<and> pages_created w2 = pages_created w'
                 \<and> key_to_page w2 = key_to_page w'
                 \<and> (\<forall>P2. res2 = Inr P2 \<longrightarrow> P2 = P)"
    if ne: "P \<noteq> []"
      and r2: "ensure_page L pub k title2 parent2 storage2 extra2 pls2 cp2 w' = (res2, w2)"
    for title2 parent2 storage2 extra2 pls2 cp2 res2 w2
  proof -
    from k' ne have t: "if_truthy (key_to_page w' k) = Some P" by (simp add: if_truthy_Some)
    note pr = ensure_page_primary[OF t r2]
    have e: "ext (on_page P) w' w2" using pr by simp
    have 1: "\<forall>ev \<in> set (new_calls w' w2). on_page P ev" using ext_new_calls[OF e] by simp
    have 2: "pages_created w2 = pages_created w'" using ext_on_page_created[OF e] .
    have 3: "key_to_page w2 = key_to_page w'" using e by (simp add: ext_def)
    have 4: "\<forall>P2. res2 = Inr P2 \<longrightarrow> P2 = P" using pr by simp
    from ensure_page_primary_eq[OF t] 1 2 3 4 show ?thesis by (intro conjI)
  qed
  have later': "P \<noteq> [] \<longrightarrow>
            (\<forall>title2 parent2 storage2 extra2 pls2 cp2 res2 w2.
               ensure_page L pub k title2 parent2 storage2 extra2 pls2 cp2 w' = (res2, w2) \<longrightarrow>
                 ensure_page L pub k title2 parent2 storage2 extra2 pls2 cp2 w'
                   = and_then (update_and_mark L pub k title2 parent2 storage2 extra2
                                 (case pls2 of None \<Rightarrow> [] | Some ls \<Rightarrow> ls) cp2 P)
                       (\<lambda>x. ret P) w'
                 \<and> (\<forall>ev \<in> set (new_calls w' w2). on_page P ev)
                 \<and> pages_created w2 = pages_created w'
                 \<and> key_to_page w2 = key_to_page w'
                 \<and> (\<forall>P2. res2 = Inr P2 \<longrightarrow> P2 = P))"
    using later by blast
  from k' k lp later' show ?thesis by (intro conjI)
qed


theorem ensure_page_installs_key_witness:
  "ensure_test world_init = (Inr (u ''new:1''), snd (ensure_test world_init))
   \<and> key_to_page world_init test_key = None
   \<and> key_to_page (snd (ensure_test world_init)) test_key = Some (u ''new:1'')
   \<and> fst (ensure_test (snd (ensure_test world_init))) = Inr (u ''new:1'')
   \<and> pages_created (snd (ensure_test (snd (ensure_test world_init))))
       = pages_created (snd (ensure_test world_init))
   \<and> key_to_page (snd (ensure_test world_legacy)) test_key = Some (u ''555'')
   \<and> key_to_page (snd (ensure_test world_adoptable)) test_key = Some (u ''900'')
   \<and> key_to_page (snd (ensure_test world_claimed)) test_key = Some (u ''777'')"
proof -
  have r: "ensure_test world_init = (Inr (u ''new:1''), snd (ensure_test world_init))"
    "ensure_test world_legacy = (Inr (u ''555''), snd (ensure_test world_legacy))"
    "ensure_test world_adoptable = (Inr (u ''900''), snd (ensure_test world_adoptable))"
    "ensure_test world_claimed = (Inr (u ''777''), snd (ensure_test world_claimed))"
    using ensure_test_init ensure_test_legacy ensure_test_adoptable ensure_test_claimed
    by (simp_all add: prod_eq_iff)
  have n: "key_to_page world_init test_key = None" "u ''new:1'' \<noteq> []"
    by (simp_all add: world_init_def u_def)
  have ep: "ensure_page test_lib test_pub test_key (u ''Hello'') (u ''100'') (u ''<p>x</p>'')
                     [u ''md''] None (Some (u ''DOCS'')) w0 = ensure_test w0" for w0
    by (simp add: ensure_test_def)
  note t = ensure_page_installs_key[OF trans[OF ep r(1)]]
  have a: "key_to_page (snd (ensure_test world_init)) test_key = Some (u ''new:1'')"
    using t by simp
  have again: "ensure_page test_lib test_pub test_key (u ''Hello'') (u ''100'') (u ''<p>x</p>'')
                     [u ''md''] None (Some (u ''DOCS'')) (snd (ensure_test world_init))
           = (fst (ensure_test (snd (ensure_test world_init))),
              snd (ensure_test (snd (ensure_test world_init))))"
    by (simp add: ensure_test_def)
  from t n(2) again
  have b: "pages_created (snd (ensure_test (snd (ensure_test world_init))))
             = pages_created (snd (ensure_test world_init))"
    "\<forall>P2. fst (ensure_test (snd (ensure_test world_init))) = Inr P2 \<longrightarrow> P2 = u ''new:1''"
    by blast+
  have c: "fst (ensure_test (snd (ensure_test world_init))) = Inr (u ''new:1'')"
    by (simp add: run_defs test_defs str_defs)
  have d: "key_to_page (snd (ensure_test world_legacy)) test_key = Some (u ''555'')"
    using ensure_page_installs_key[OF trans[OF ep r(2)]] by simp
  have e: "key_to_page (snd (ensure_test world_adoptable)) test_key = Some (u ''900'')"
    using ensure_page_installs_key[OF trans[OF ep r(3)]] by simp
  have f: "key_to_page (snd (ensure_test world_claimed)) test_key = Some (u ''777'')"
    using ensure_page_installs_key[OF trans[OF ep r(4)]] by simp
  from r(1) n(1) a b(1) c d e f show ?thesis by (intro conjI)
qed

section \<open>The resolution chain\<close>

text \<open>
  C4. One call of \<open>ensure_page\<close> resolves the page of a key in this order.
  (1) The primary index holds a non-empty id for the key: that page is updated
  and returned, and nothing else is called. (2) Otherwise the legacy label of
  the key is in the label index with a non-empty id: that page is updated, then
  the legacy label is deleted from it (the last call), and the key is installed
  in the primary index. (3) Otherwise, with the adoption option on, the search by
  the exact title returns a page whose ancestors include the configured root:
  no page is created, that page is updated, then the legacy label is deleted
  from it, and the key is installed. (4) Otherwise (the option off, or no such
  page, or a page outside the root) the creation of a page under the first
  candidate title is attempted, and on success the key is installed with the id
  of the page created (or of the page adopted after a title collision).
\<close>

theorem ensure_page_resolution_order:
  assumes run: "ensure_page L pub k title parent_id storage extra pls cp w = (res, w')"
  shows
   "(\<forall>p. key_to_page w k = Some p \<and> p \<noteq> [] \<longrightarrow>
        (\<forall>ev \<in> set (new_calls w w'). on_page p ev)
        \<and> (\<forall>P. res = Inr P \<longrightarrow> P = p
              \<and> (\<exists>t \<in> set (title_candidates L k cp title).
                    (UpdatePage p (space (cfg pub)) parent_id t storage, Returned)
                      \<in> set (new_calls w w'))))
  \<and> (\<forall>l. if_truthy (key_to_page w k) = None
          \<and> label_to_page w (label_for L k) = Some l \<and> l \<noteq> [] \<longrightarrow>
        (\<forall>ev \<in> set (new_calls w w'). on_page l ev)
        \<and> (\<forall>P. res = Inr P \<longrightarrow> P = l \<and> key_to_page w' = (key_to_page w)(k \<mapsto> l)
              \<and> (\<exists>evs oc. new_calls w w' = evs @ [(DeleteLabel l (label_for L k), oc)]
                    \<and> (\<exists>t \<in> set (title_candidates L k cp title).
                          (UpdatePage l (space (cfg pub)) parent_id t storage, Returned)
                            \<in> set evs))))
  \<and> (\<forall>pg r'. if_truthy (key_to_page w k) = None
          \<and> if_truthy (label_to_page w (label_for L k)) = None
          \<and> opt_get (options (cfg pub)) ''adopt_existing_by_title_under_root'' True
          \<and> find_page_by_title (conf pub) (space (cfg pub)) title (remote w) = (Inr (Some pg), r')
          \<and> docs_root_id (cfg pub) \<in> set (pj_ancestors pg) \<and> pj_id pg \<noteq> [] \<longrightarrow>
        pages_created w' = pages_created w
        \<and> (\<exists>rest. new_calls w w'
                     = (FindPageByTitle (space (cfg pub)) title, ReturnedPage (Some pg)) # rest
              \<and> (\<forall>ev \<in> set rest. on_page (pj_id pg) ev)
              \<and> (\<forall>P. res = Inr P \<longrightarrow> P = pj_id pg
                    \<and> key_to_page w' = (key_to_page w)(k \<mapsto> pj_id pg)
                    \<and> (\<exists>evs oc. rest = evs @ [(DeleteLabel (pj_id pg) (label_for L k), oc)]
                          \<and> (\<exists>t \<in> set (title_candidates L k cp title).
                                (UpdatePage (pj_id pg) (space (cfg pub)) parent_id t storage, Returned)
                                  \<in> set evs)))))
  \<and> (if_truthy (key_to_page w k) = None
        \<and> if_truthy (label_to_page w (label_for L k)) = None
        \<and> (\<not> opt_get (options (cfg pub)) ''adopt_existing_by_title_under_root'' True
            \<or> (\<exists>fres r'. find_page_by_title (conf pub) (space (cfg pub)) title (remote w)
                            = (Inr fres, r')
                  \<and> (case fres of None \<Rightarrow> True
                      | Some pg \<Rightarrow> docs_root_id (cfg pub) \<notin> set (pj_ancestors pg)
                                   \<or> pj_id pg = []))) \<longrightarrow>
        (\<exists>oc. (CreatePage (space (cfg pub)) parent_id (hd (title_candidates L k cp title)) storage, oc)
                \<in> set (new_calls w w'))
        \<and> (\<forall>P. res = Inr P \<longrightarrow> key_to_page w' = (key_to_page w)(k \<mapsto> P)
              \<and> ((\<exists>t'. (CreatePage (space (cfg pub)) parent_id t' storage, ReturnedId (Some P))
                          \<in> set (new_calls w w'))
                 \<or> (P \<noteq> [] \<and> pages_created w' = pages_created w
                     \<and> (\<exists>t' pg. (FindPageByTitle (space (cfg pub)) t', ReturnedPage (Some pg))
                                    \<in> set (new_calls w w')
                                  \<and> pj_id pg = P
                                  \<and> docs_root_id (cfg pub) \<in> set (pj_ancestors pg))))))"
proof (intro conjI allI impI)
  fix p
  assume a: "key_to_page w k = Some p \<and> p \<noteq> []"
  then have t: "if_truthy (key_to_page w k) = Some p" by (simp add: if_truthy_Some)
  note pr = ensure_page_primary[OF t run]
  show "\<forall>ev \<in> set (new_calls w w'). on_page p ev"
    using ext_new_calls[OF pr[THEN conjunct1]] by simp
  show "P = p" if "res = Inr P" for P using pr that by simp
  show "\<exists>t \<in> set (title_candidates L k cp title).
           (UpdatePage p (space (cfg pub)) parent_id t storage, Returned) \<in> set (new_calls w w')"
    if "res = Inr P" for P using pr that by simp
next
  fix l
  assume a: "if_truthy (key_to_page w k) = None
          \<and> label_to_page w (label_for L k) = Some l \<and> l \<noteq> []"
  then have k0: "if_truthy (key_to_page w k) = None"
    and l: "if_truthy (label_to_page w (label_for L k)) = Some l"
    by (simp_all add: if_truthy_Some)
  note lg = ensure_page_legacy[OF k0 l run]
  show "\<forall>ev \<in> set (new_calls w w'). on_page l ev" using lg by simp
  show "P = l" if "res = Inr P" for P using lg that by simp
  show "key_to_page w' = (key_to_page w)(k \<mapsto> l)" if "res = Inr P" for P using lg that by simp
  show "\<exists>evs oc. new_calls w w' = evs @ [(DeleteLabel l (label_for L k), oc)]
                    \<and> (\<exists>t \<in> set (title_candidates L k cp title).
                          (UpdatePage l (space (cfg pub)) parent_id t storage, Returned)
                            \<in> set evs)" if "res = Inr P" for P using lg that by simp
next
  fix pg r'
  assume a: "if_truthy (key_to_page w k) = None
          \<and> if_truthy (label_to_page w (label_for L k)) = None
          \<and> opt_get (options (cfg pub)) ''adopt_existing_by_title_under_root'' True
          \<and> find_page_by_title (conf pub) (space (cfg pub)) title (remote w) = (Inr (Some pg), r')
          \<and> docs_root_id (cfg pub) \<in> set (pj_ancestors pg) \<and> pj_id pg \<noteq> []"
  then have k0: "if_truthy (key_to_page w k) = None"
    and l0: "if_truthy (label_to_page w (label_for L k)) = None"
    and en: "opt_get (options (cfg pub)) ''adopt_existing_by_title_under_root'' True"
    and f: "find_page_by_title (conf pub) (space (cfg pub)) title (remote w) = (Inr (Some pg), r')"
    and root: "docs_root_id (cfg pub) \<in> set (pj_ancestors pg)" and ne: "pj_id pg \<noteq> []"
    by simp_all
  from adopt_found[OF en f] root obtain w1 where
    ad: "adopt_by_title_under_root pub title w = (Inr (Some (pj_id pg)), w1)"
    and n1: "new_calls w w1 = [(FindPageByTitle (space (cfg pub)) title, ReturnedPage (Some pg))]"
    by auto
  note ea = ensure_page_adopted[OF k0 l0 ad ne run]
  show "pages_created w' = pages_created w" using ea by simp
  have n: "new_calls w w'
             = (FindPageByTitle (space (cfg pub)) title, ReturnedPage (Some pg)) # new_calls w1 w'"
    using ea n1 by simp
  have o: "\<forall>ev \<in> set (new_calls w1 w'). on_page (pj_id pg) ev" using ea by simp
  have s: "\<forall>P. res = Inr P \<longrightarrow> P = pj_id pg
                    \<and> key_to_page w' = (key_to_page w)(k \<mapsto> pj_id pg)
                    \<and> (\<exists>evs oc. new_calls w1 w' = evs @ [(DeleteLabel (pj_id pg) (label_for L k), oc)]
                          \<and> (\<exists>t \<in> set (title_candidates L k cp title).
                                (UpdatePage (pj_id pg) (space (cfg pub)) parent_id t storage, Returned)
                                  \<in> set evs))"
    using ea[THEN conjunct2, THEN conjunct2, THEN conjunct2] .
  from n o s show "\<exists>rest. new_calls w w'
                     = (FindPageByTitle (space (cfg pub)) title, ReturnedPage (Some pg)) # rest
              \<and> (\<forall>ev \<in> set rest. on_page (pj_id pg) ev)
              \<and> (\<forall>P. res = Inr P \<longrightarrow> P = pj_id pg
                    \<and> key_to_page w' = (key_to_page w)(k \<mapsto> pj_id pg)
                    \<and> (\<exists>evs oc. rest = evs @ [(DeleteLabel (pj_id pg) (label_for L k), oc)]
                          \<and> (\<exists>t \<in> set (title_candidates L k cp title).
                                (UpdatePage (pj_id pg) (space (cfg pub)) parent_id t storage, Returned)
                                  \<in> set evs)))"
    by (intro exI[of _ "new_calls w1 w'"] conjI)
next
  assume a: "if_truthy (key_to_page w k) = None
        \<and> if_truthy (label_to_page w (label_for L k)) = None
        \<and> (\<not> opt_get (options (cfg pub)) ''adopt_existing_by_title_under_root'' True
            \<or> (\<exists>fres r'. find_page_by_title (conf pub) (space (cfg pub)) title (remote w)
                            = (Inr fres, r')
                  \<and> (case fres of None \<Rightarrow> True
                      | Some pg \<Rightarrow> docs_root_id (cfg pub) \<notin> set (pj_ancestors pg)
                                   \<or> pj_id pg = [])))"
  then have k0: "if_truthy (key_to_page w k) = None"
    and l0: "if_truthy (label_to_page w (label_for L k)) = None" by simp_all
  have "\<exists>ar w1. adopt_by_title_under_root pub title w = (Inr ar, w1) \<and> if_truthy ar = None"
  proof (cases "opt_get (options (cfg pub)) ''adopt_existing_by_title_under_root'' True")
    case False
    from adopt_disabled[OF False] show ?thesis by (auto simp: if_truthy_def)
  next
    case True
    with a obtain fres r' where
      f: "find_page_by_title (conf pub) (space (cfg pub)) title (remote w) = (Inr fres, r')"
      and c: "case fres of None \<Rightarrow> True
              | Some pg \<Rightarrow> docs_root_id (cfg pub) \<notin> set (pj_ancestors pg) \<or> pj_id pg = []"
      by blast
    from adopt_found[OF True f] obtain w1 where
      ad: "adopt_by_title_under_root pub title w =
           (Inr (case fres of None \<Rightarrow> None
                 | Some pg \<Rightarrow> if docs_root_id (cfg pub) \<in> set (pj_ancestors pg)
                              then Some (pj_id pg) else None), w1)" by blast
    have "if_truthy (case fres of None \<Rightarrow> None
                 | Some pg \<Rightarrow> if docs_root_id (cfg pub) \<in> set (pj_ancestors pg)
                              then Some (pj_id pg) else None) = None"
      using c by (cases fres) (auto simp: if_truthy_def)
    with ad show ?thesis by blast
  qed
  then obtain ar w1 where ad: "adopt_by_title_under_root pub title w = (Inr ar, w1)"
    and n: "if_truthy ar = None" by blast
  note cr = ensure_page_created[OF k0 l0 ad n run]
  show "\<exists>oc. (CreatePage (space (cfg pub)) parent_id (hd (title_candidates L k cp title)) storage, oc)
                \<in> set (new_calls w w')" using cr by (rule conjunct1)
  show "key_to_page w' = (key_to_page w)(k \<mapsto> P)" if "res = Inr P" for P
    using cr[THEN conjunct2] that by simp
  show "(\<exists>t'. (CreatePage (space (cfg pub)) parent_id t' storage, ReturnedId (Some P))
                          \<in> set (new_calls w w'))
                 \<or> (P \<noteq> [] \<and> pages_created w' = pages_created w
                     \<and> (\<exists>t' pg. (FindPageByTitle (space (cfg pub)) t', ReturnedPage (Some pg))
                                    \<in> set (new_calls w w')
                                  \<and> pj_id pg = P
                                  \<and> docs_root_id (cfg pub) \<in> set (pj_ancestors pg)))"
    if "res = Inr P" for P
    using cr[THEN conjunct2] that by simp
qed

theorem ensure_page_resolution_order_witness:
  "if_truthy (key_to_page world_legacy test_key) = None
   \<and> label_to_page world_legacy (label_for test_lib test_key) = Some (u ''555'')
   \<and> fst (ensure_test world_legacy) = Inr (u ''555'')
   \<and> key_to_page (snd (ensure_test world_legacy)) = (key_to_page world_legacy)(test_key \<mapsto> u ''555'')
   \<and> (\<exists>evs oc. new_calls world_legacy (snd (ensure_test world_legacy))
                   = evs @ [(DeleteLabel (u ''555'') (label_for test_lib test_key), oc)])
   \<and> if_truthy (label_to_page world_adoptable (label_for test_lib test_key)) = None
   \<and> find_page_by_title (conf test_pub) (space (cfg test_pub)) (u ''Hello'') (remote world_adoptable)
        = (Inr (Some hello_page), remote world_adoptable)
   \<and> docs_root_id (cfg test_pub) \<in> set (pj_ancestors hello_page)
   \<and> fst (ensure_test world_adoptable) = Inr (u ''900'')
   \<and> pages_created (snd (ensure_test world_adoptable)) = pages_created world_adoptable
   \<and> key_to_page (snd (ensure_test world_adoptable)) = (key_to_page world_adoptable)(test_key \<mapsto> u ''900'')
   \<and> find_page_by_title (conf test_pub) (space (cfg test_pub)) (u ''Hello'') (remote world_init)
        = (Inr None, remote world_init)
   \<and> fst (ensure_test world_init) = Inr (u ''new:1'')
   \<and> key_to_page (snd (ensure_test world_init)) = (key_to_page world_init)(test_key \<mapsto> u ''new:1'')
   \<and> (\<exists>oc. (CreatePage (u ''DOC'') (u ''100'') (u ''Hello'') (u ''<p>x</p>''), oc)
              \<in> set (new_calls world_init (snd (ensure_test world_init))))"
proof -
  have ep: "ensure_page test_lib test_pub test_key (u ''Hello'') (u ''100'') (u ''<p>x</p>'')
              [u ''md''] None (Some (u ''DOCS'')) w0 = (fst (ensure_test w0), snd (ensure_test w0))"
    for w0 by (simp add: ensure_test_def)
  note lb = test_label
  have l1: "if_truthy (key_to_page world_legacy test_key) = None"
    "label_to_page world_legacy (label_for test_lib test_key) = Some (u ''555'')" "u ''555'' \<noteq> []"
    by (simp_all add: lb if_truthy_def world_legacy_def world_init_def u_def)
  have a1: "if_truthy (key_to_page world_adoptable test_key) = None"
    "if_truthy (label_to_page world_adoptable (label_for test_lib test_key)) = None"
    "opt_get (options (cfg test_pub)) ''adopt_existing_by_title_under_root'' True"
    "find_page_by_title (conf test_pub) (space (cfg test_pub)) (u ''Hello'') (remote world_adoptable)
        = (Inr (Some hello_page), remote world_adoptable)"
    "docs_root_id (cfg test_pub) \<in> set (pj_ancestors hello_page)" "pj_id hello_page \<noteq> []"
    "pj_id hello_page = u ''900''"
    by (simp_all add: if_truthy_def opt_get_def world_adoptable_def world_init_def test_pub_def
        test_cfg_def FakeConfluence_def fake_init_def hello_page_def u_def)
  have c1: "if_truthy (key_to_page world_init test_key) = None"
    "if_truthy (label_to_page world_init (label_for test_lib test_key)) = None"
    "find_page_by_title (conf test_pub) (space (cfg test_pub)) (u ''Hello'') (remote world_init)
        = (Inr None, remote world_init)"
    "space (cfg test_pub) = u ''DOC''"
    "hd (title_candidates test_lib test_key (Some (u ''DOCS'')) (u ''Hello'')) = u ''Hello''"
    by (simp_all add: if_truthy_def world_init_def test_pub_def title_candidates_def
        test_cfg_def FakeConfluence_def fake_init_def str_defs Let_def)
  note t2 = ensure_page_resolution_order[OF ep[of world_legacy], THEN conjunct2, THEN conjunct1]
  from t2 l1 ensure_test_legacy
  have r2: "key_to_page (snd (ensure_test world_legacy)) = (key_to_page world_legacy)(test_key \<mapsto> u ''555'')"
    "\<exists>evs oc. new_calls world_legacy (snd (ensure_test world_legacy))
                   = evs @ [(DeleteLabel (u ''555'') (label_for test_lib test_key), oc)]"
    by blast+
  note t3 = ensure_page_resolution_order[OF ep[of world_adoptable], THEN conjunct2, THEN conjunct2,
      THEN conjunct1]
  from t3 a1(1-6) have r3': "pages_created (snd (ensure_test world_adoptable)) = pages_created world_adoptable
      \<and> (\<exists>rest. (\<forall>P. fst (ensure_test world_adoptable) = Inr P \<longrightarrow>
             key_to_page (snd (ensure_test world_adoptable))
               = (key_to_page world_adoptable)(test_key \<mapsto> pj_id hello_page)))"
    by blast
  with ensure_test_adoptable a1(7)
  have r3: "pages_created (snd (ensure_test world_adoptable)) = pages_created world_adoptable"
    "key_to_page (snd (ensure_test world_adoptable)) = (key_to_page world_adoptable)(test_key \<mapsto> u ''900'')"
    by simp_all
  note t4 = ensure_page_resolution_order[OF ep[of world_init], THEN conjunct2, THEN conjunct2,
      THEN conjunct2]
  have pre4: "\<exists>fres r'. find_page_by_title (conf test_pub) (space (cfg test_pub)) (u ''Hello'')
                 (remote world_init) = (Inr fres, r')
                  \<and> (case fres of None \<Rightarrow> True
                      | Some pg \<Rightarrow> docs_root_id (cfg test_pub) \<notin> set (pj_ancestors pg)
                                   \<or> pj_id pg = [])"
    using c1(3) by (intro exI[of _ None] exI[of _ "remote world_init"]) simp
  from t4 c1(1,2) pre4
  have r4': "(\<exists>oc. (CreatePage (space (cfg test_pub)) (u ''100'')
                     (hd (title_candidates test_lib test_key (Some (u ''DOCS'')) (u ''Hello'')))
                     (u ''<p>x</p>''), oc)
                \<in> set (new_calls world_init (snd (ensure_test world_init))))
        \<and> (\<forall>P. fst (ensure_test world_init) = Inr P \<longrightarrow>
               key_to_page (snd (ensure_test world_init)) = (key_to_page world_init)(test_key \<mapsto> P))"
    by blast
  with ensure_test_init c1(4,5)
  have r4: "key_to_page (snd (ensure_test world_init)) = (key_to_page world_init)(test_key \<mapsto> u ''new:1'')"
    "\<exists>oc. (CreatePage (u ''DOC'') (u ''100'') (u ''Hello'') (u ''<p>x</p>''), oc)
              \<in> set (new_calls world_init (snd (ensure_test world_init)))"
    by simp_all
  from l1(1,2) ensure_test_legacy r2 a1(2,4,5) ensure_test_adoptable r3 c1(3) ensure_test_init r4
  show ?thesis by (intro conjI)
qed

section \<open>Renames\<close>

lemma file_key_neq: "old_path \<noteq> current_path \<Longrightarrow> u ''file:'' @ old_path \<noteq> u ''file:'' @ current_path"
  by simp

lemma file_key_truthy: "if_truthy (Some (u ''file:'' @ p)) = Some (u ''file:'' @ p)"
  by (simp add: if_truthy_def u_def)

lemma publish_entry_renamed_eq:
  assumes d: "old_path \<noteq> current_path"
      and kold: "key_to_page w (u ''file:'' @ old_path) = Some P" and ne: "P \<noteq> []"
      and knew: "u ''file:'' @ current_path \<notin> dom (key_to_page w)"
  shows "publish_entry L pub convert tags
           (renamed_entry old_path current_path md title parent_id cpref) w =
     (let w1 = w\<lparr>key_to_page := (key_to_page w)(u ''file:'' @ current_path \<mapsto> P)\<rparr>
      in case convert md current_path of
           Inl ex \<Rightarrow> (Inl ex, w1)
         | Inr cr \<Rightarrow>
             (case ensure_page L pub (u ''file:'' @ current_path) title parent_id (cr_storage cr)
                     [u ''md''] (Some (tags (cr_front_matter cr))) (Some cpref) w1 of
                (Inl ex, w2) \<Rightarrow> (Inl ex, w2)
              | (Inr page_id, w2) \<Rightarrow>
                  (let w3 = w2\<lparr>path_to_page := (path_to_page w2)(current_path \<mapsto> page_id)\<rparr>;
                       w4 = (case if_truthy (Some old_path) of
                               None \<Rightarrow> w3
                             | Some rp \<Rightarrow> w3\<lparr>path_to_page := (path_to_page w3)(rp := None)\<rparr>);
                       w5 = (if key_to_page w4 (u ''file:'' @ old_path) = Some page_id
                             then w4\<lparr>key_to_page := (key_to_page w4)(u ''file:'' @ old_path := None)\<rparr>
                             else w4)
                   in (Inr page_id, w5))))"
proof -
  have t: "if_truthy (key_to_page w (u ''file:'' @ old_path)) = Some P"
    using kold ne by (simp add: if_truthy_Some)
  show ?thesis
    unfolding publish_entry_def renamed_entry_def
    using file_key_neq[OF d] knew t
    by (simp add: file_key_truthy Let_def cong: sum.case_cong prod.case_cong)
qed



lemma publish_test_id: "fst publish_test = Inr (u ''777'')"
  by (simp add: publish_test_def publish_entry_def renamed_entry_def world_renamed_def
      test_convert_def run_defs test_defs str_defs)


text \<open>
  C3. Let an entry rename \<open>old\<close> to \<open>new\<close>, with the old key \<open>file:old\<close> mapped
  to a page id \<open>P\<close> and the new key \<open>file:new\<close> not in the primary index. Then
  publishing the entry creates no page and calls the client on \<open>P\<close> only; when
  it returns, it returns \<open>P\<close>, it has updated \<open>P\<close> with the converted body, the
  new key and the new path map to \<open>P\<close>, and the old key and the old path are
  gone from the indexes. When it ends with an exception, the new key stays
  claimed for \<open>P\<close> and the path index is as before.
\<close>

theorem rename_keeps_page:
  assumes d: "old_path \<noteq> current_path" and op: "old_path \<noteq> []"
      and kold: "key_to_page w (u ''file:'' @ old_path) = Some P" and ne: "P \<noteq> []"
      and knew: "u ''file:'' @ current_path \<notin> dom (key_to_page w)"
      and run: "publish_entry L pub convert tags
                  (renamed_entry old_path current_path md title parent_id cpref) w = (res, w')"
  shows "pages_created w' = pages_created w
       \<and> (\<forall>ev \<in> set (new_calls w w'). on_page P ev)
       \<and> (\<forall>e. res = Inl e \<longrightarrow>
             key_to_page w' = (key_to_page w)(u ''file:'' @ current_path \<mapsto> P)
             \<and> path_to_page w' = path_to_page w)
       \<and> (\<forall>pid. res = Inr pid \<longrightarrow> pid = P
             \<and> key_to_page w' = ((key_to_page w)(u ''file:'' @ current_path \<mapsto> P))
                                    (u ''file:'' @ old_path := None)
             \<and> path_to_page w' = ((path_to_page w)(current_path \<mapsto> P))(old_path := None)
             \<and> key_to_page w' (u ''file:'' @ current_path) = Some P
             \<and> key_to_page w' (u ''file:'' @ old_path) = None
             \<and> path_to_page w' current_path = Some P
             \<and> path_to_page w' old_path = None
             \<and> (\<exists>cr t. convert md current_path = Inr cr
                   \<and> (UpdatePage P (space (cfg pub)) parent_id t (cr_storage cr), Returned)
                        \<in> set (new_calls w w')))"
proof -
  define w1 where "w1 = w\<lparr>key_to_page := (key_to_page w)(u ''file:'' @ current_path \<mapsto> P)\<rparr>"
  note kn = file_key_neq[OF d]
  have w1: "calls w1 = calls w" "path_to_page w1 = path_to_page w"
    "key_to_page w1 = (key_to_page w)(u ''file:'' @ current_path \<mapsto> P)"
    by (simp_all add: w1_def)
  have t1: "if_truthy (key_to_page w1 (u ''file:'' @ current_path)) = Some P"
    using ne by (simp add: w1 if_truthy_def)
  have io: "if_truthy (Some old_path) = Some old_path"
    using op by (simp add: if_truthy_def)
  note eq = publish_entry_renamed_eq[OF d kold ne knew, of L pub convert tags md title parent_id cpref,
      folded w1_def]
  show ?thesis
  proof (cases "convert md current_path")
    case (Inl ex)
    with run eq have r: "res = Inl ex" "w' = w1" by (simp_all add: Let_def)
    have "new_calls w w' = []" using r w1 by (simp add: new_calls_def)
    moreover have "pages_created w' = pages_created w" using r w1 by (simp add: pages_created_def)
    ultimately show ?thesis using r w1 by simp
  next
    case (Inr cr)
    obtain r2 w2 where ep: "ensure_page L pub (u ''file:'' @ current_path) title parent_id (cr_storage cr)
                     [u ''md''] (Some (tags (cr_front_matter cr))) (Some cpref) w1 = (r2, w2)"
      by (cases "ensure_page L pub (u ''file:'' @ current_path) title parent_id (cr_storage cr)
                     [u ''md''] (Some (tags (cr_front_matter cr))) (Some cpref) w1")
    note pr = ensure_page_primary[OF t1 ep]
    have e: "ext (on_page P) w1 w2" using pr by simp
    have k2: "key_to_page w2 = (key_to_page w)(u ''file:'' @ current_path \<mapsto> P)"
      and p2: "path_to_page w2 = path_to_page w"
      using e w1 by (simp_all add: ext_def)
    have n2: "new_calls w w2 = new_calls w1 w2" using w1 by (simp add: new_calls_def)
    have c2: "pages_created w2 = pages_created w"
      using ext_on_page_created[OF e] w1 by (simp add: pages_created_def)
    have o2: "\<forall>ev \<in> set (new_calls w w2). on_page P ev"
      using ext_new_calls[OF e] n2 by simp
    show ?thesis
    proof (cases r2)
      case (Inl ex)
      with run eq Inr ep have r: "res = Inl ex" "w' = w2" by (simp_all add: Let_def)
      from r c2 o2 k2 p2 show ?thesis by simp
    next
      case r2: (Inr pid)
      with pr have pid: "pid = P" by simp
      from pr r2 obtain t where
        up: "(UpdatePage P (space (cfg pub)) parent_id t (cr_storage cr), Returned) \<in> set (new_calls w1 w2)"
        by auto
      define w5 where "w5 = w2\<lparr>path_to_page := ((path_to_page w2)(current_path \<mapsto> P))(old_path := None),
                               key_to_page := (key_to_page w2)(u ''file:'' @ old_path := None)\<rparr>"
      have ko: "key_to_page w2 (u ''file:'' @ old_path) = Some P"
        using k2 kn kold by simp
      from run eq Inr ep r2 pid io ko have r: "res = Inr P" "w' = w5"
        by (simp_all add: Let_def w5_def)
      have a: "pages_created w' = pages_created w" using r c2 by (simp add: w5_def pages_created_def)
      have n: "new_calls w w' = new_calls w w2" using r by (simp add: w5_def new_calls_def)
      have b: "\<forall>ev \<in> set (new_calls w w'). on_page P ev" using o2 n by simp
      have k5: "key_to_page w' = ((key_to_page w)(u ''file:'' @ current_path \<mapsto> P))
                                    (u ''file:'' @ old_path := None)"
        using r k2 by (simp add: w5_def)
      have p5: "path_to_page w' = ((path_to_page w)(current_path \<mapsto> P))(old_path := None)"
        using r p2 by (simp add: w5_def)
      have k5a: "key_to_page w' (u ''file:'' @ current_path) = Some P"
        "key_to_page w' (u ''file:'' @ old_path) = None"
        using k5 kn by simp_all
      have p5a: "path_to_page w' current_path = Some P" "path_to_page w' old_path = None"
        using p5 d by simp_all
      have u5: "\<exists>cr t. convert md current_path = Inr cr
                   \<and> (UpdatePage P (space (cfg pub)) parent_id t (cr_storage cr), Returned)
                        \<in> set (new_calls w w')"
        using Inr up n n2 by auto
      from r(1) a b k5 p5 k5a p5a u5 show ?thesis by simp
    qed
  qed
qed

theorem rename_keeps_page_witness:
  "key_to_page world_renamed (u ''file:'' @ u ''docs/a/old.md'') = Some (u ''777'')
   \<and> u ''file:'' @ u ''docs/a/new.md'' \<notin> dom (key_to_page world_renamed)
   \<and> fst publish_test = Inr (u ''777'')
   \<and> pages_created (snd publish_test) = pages_created world_renamed
   \<and> key_to_page (snd publish_test) (u ''file:'' @ u ''docs/a/new.md'') = Some (u ''777'')
   \<and> key_to_page (snd publish_test) (u ''file:'' @ u ''docs/a/old.md'') = None
   \<and> path_to_page (snd publish_test) (u ''docs/a/new.md'') = Some (u ''777'')
   \<and> path_to_page (snd publish_test) (u ''docs/a/old.md'') = None"
proof -
  have h: "u ''docs/a/old.md'' \<noteq> u ''docs/a/new.md''" "u ''docs/a/old.md'' \<noteq> []"
    "key_to_page world_renamed (u ''file:'' @ u ''docs/a/old.md'') = Some (u ''777'')"
    "u ''777'' \<noteq> []"
    "u ''file:'' @ u ''docs/a/new.md'' \<notin> dom (key_to_page world_renamed)"
    by (simp_all add: world_renamed_def world_init_def u_def)
  have r: "publish_entry test_lib test_pub test_convert (\<lambda>fm. [])
                    (renamed_entry (u ''docs/a/old.md'') (u ''docs/a/new.md'') (u ''x'') (u ''Hello'')
                       (u ''100'') (u ''DOCS'')) world_renamed = (Inr (u ''777''), snd publish_test)"
    using publish_test_id by (simp add: publish_test_def prod_eq_iff)
  note t = rename_keeps_page[OF h r]
  from t h(1) h(1)[symmetric] have c: "pages_created (snd publish_test) = pages_created world_renamed"
    "key_to_page (snd publish_test) (u ''file:'' @ u ''docs/a/new.md'') = Some (u ''777'')"
    "key_to_page (snd publish_test) (u ''file:'' @ u ''docs/a/old.md'') = None"
    "path_to_page (snd publish_test) (u ''docs/a/new.md'') = Some (u ''777'')"
    "path_to_page (snd publish_test) (u ''docs/a/old.md'') = None"
    by simp_all
  from h(3,5) publish_test_id c show ?thesis by (intro conjI)
qed

end
